theory Spec2Isabelle
  imports Complex_Main "HOL-Library.AList"
begin

section \<open>Python values, strings and exceptions\<close>

text \<open>
  The program is one Python module, \<^verbatim>\<open>arxiv_hydra.py\<close>. Its configuration documents are
  OmegaConf containers built from YAML; a value read from one is \<^verbatim>\<open>None\<close>, a boolean, an
  integer, a float, a string, a list or a mapping with string keys. A mapping keeps the
  order of its keys, so it is an association list. A Python \<^verbatim>\<open>str\<close> is the list of its
  Unicode code points; \<open>ustr\<close> writes a string of ASCII characters that way.
\<close>

type_synonym pystr = "nat list"

abbreviation (input) ustr :: "string \<Rightarrow> pystr" where
  "ustr s \<equiv> map of_char s"

datatype pyval =
    PNone
  | PBool bool
  | PInt int
  | PFloat rat
  | PStr pystr
  | PList "pyval list"
  | PDict "(pystr \<times> pyval) list"

text \<open>
  What a call can raise: an instance of \<^verbatim>\<open>Exception\<close>, which \<^verbatim>\<open>except Exception\<close>
  catches, or another \<^verbatim>\<open>BaseException\<close> (\<^verbatim>\<open>KeyboardInterrupt\<close>, \<^verbatim>\<open>SystemExit\<close>), which it
  does not. The string is \<^verbatim>\<open>str(e)\<close>.
\<close>

datatype exn = Exc pystr | BaseExc pystr

fun exn_bind :: "exn + 'a \<Rightarrow> ('a \<Rightarrow> exn + 'b) \<Rightarrow> exn + 'b" where
  "exn_bind (Inl e) f = Inl e"
| "exn_bind (Inr v) f = f v"

text \<open>Truth value of a Python object (\<^verbatim>\<open>if x\<close>, \<^verbatim>\<open>not x\<close>, \<^verbatim>\<open>x or y\<close>).\<close>

fun truthy :: "pyval \<Rightarrow> bool" where
  "truthy PNone = False"
| "truthy (PBool b) = b"
| "truthy (PInt n) = (n \<noteq> 0)"
| "truthy (PFloat r) = (r \<noteq> 0)"
| "truthy (PStr s) = (s \<noteq> [])"
| "truthy (PList vs) = (vs \<noteq> [])"
| "truthy (PDict kvs) = (kvs \<noteq> [])"

text \<open>
  \<^verbatim>\<open>str.isspace\<close> of one character, which is what \<^verbatim>\<open>str.strip()\<close> removes: the ASCII
  controls U+0009..U+000D and U+001C..U+001F, the space, U+0085, U+00A0, U+1680,
  U+2000..U+200A, U+2028, U+2029, U+202F, U+205F and U+3000.
\<close>

definition is_space :: "nat \<Rightarrow> bool" where
  "is_space c =
     ((9 \<le> c \<and> c \<le> 13) \<or> (28 \<le> c \<and> c \<le> 32) \<or> c = 0x85 \<or> c = 0xA0 \<or> c = 0x1680
      \<or> (0x2000 \<le> c \<and> c \<le> 0x200A) \<or> c = 0x2028 \<or> c = 0x2029 \<or> c = 0x202F
      \<or> c = 0x205F \<or> c = 0x3000)"

text \<open>\<^verbatim>\<open>s.strip()\<close>: leading and trailing whitespace removed.\<close>

definition strip :: "pystr \<Rightarrow> pystr" where
  "strip s = rev (dropWhile is_space (rev (dropWhile is_space s)))"

text \<open>\<^verbatim>\<open>s.startswith(p)\<close>.\<close>

definition startswith :: "pystr \<Rightarrow> pystr \<Rightarrow> bool" where
  "startswith s p = (take (length p) s = p)"

text \<open>
  \<^verbatim>\<open>s.replace(old, new)\<close>: every non-overlapping occurrence of \<open>old\<close>, scanning from the
  left, is replaced; an empty \<open>old\<close> matches before every character and at the end.
\<close>

function replace :: "pystr \<Rightarrow> pystr \<Rightarrow> pystr \<Rightarrow> pystr" where
  "replace s old new =
     (if old = [] then (case s of [] \<Rightarrow> new | c # cs \<Rightarrow> new @ c # replace cs old new)
      else if s = [] then []
      else if startswith s old then new @ replace (drop (length old) s) old new
      else hd s # replace (tl s) old new)"
  by pat_completeness auto
termination
  by (relation "measure (\<lambda>(s, old, new). length s)") (auto simp: startswith_def)

declare replace.simps [simp del]

section \<open>Keyword Normalizer\<close>

text \<open>
  \<^verbatim>\<open>for keyword in keywords\<close>: a list yields its elements, a mapping its keys, a string its
  characters; anything else is not iterable.
\<close>

fun py_iter :: "pyval \<Rightarrow> exn + pyval list" where
  "py_iter (PList vs) = Inr vs"
| "py_iter (PDict kvs) = Inr (map (\<lambda>kv. PStr (fst kv)) kvs)"
| "py_iter (PStr s) = Inr (map (\<lambda>c. PStr [c]) s)"
| "py_iter v = Inl (Exc (ustr ''TypeError''))"

text \<open>
  The loop of \<^verbatim>\<open>_filter_keywords\<close>, with \<open>filtered\<close> the list built so far. An entry that
  is falsy is skipped before \<^verbatim>\<open>keyword.strip()\<close> is evaluated; a truthy entry that is not a
  string has no \<^verbatim>\<open>strip\<close> method.
\<close>

fun filter_loop :: "pyval list \<Rightarrow> pystr list \<Rightarrow> exn + pystr list" where
  "filter_loop [] filtered = Inr filtered"
| "filter_loop (keyword # rest) filtered =
     (if \<not> truthy keyword then filter_loop rest filtered
      else case keyword of
          PStr s \<Rightarrow>
            if strip s = [] then filter_loop rest filtered
            else if startswith (strip s) (ustr ''#'') then filter_loop rest filtered
            else filter_loop rest (filtered @ [strip s])
        | _ \<Rightarrow> Inl (Exc (ustr ''AttributeError'')))"

definition filter_keywords :: "pyval \<Rightarrow> exn + pystr list" where
  "filter_keywords keywords =
     (if \<not> truthy keywords then Inr []
      else exn_bind (py_iter keywords) (\<lambda>items. filter_loop items []))"

text \<open>
  An entry survives when it is not all whitespace (which the empty entry is) and its
  trimmed form is not a comment line.
\<close>

definition is_keyword :: "pystr \<Rightarrow> bool" where
  "is_keyword k = (\<not> list_all is_space k \<and> \<not> startswith (strip k) (ustr ''#''))"

section \<open>Config Merger\<close>

text \<open>
  Modelled from the spec: \<^verbatim>\<open>OmegaConf.merge\<close>, a function of the OmegaConf library, which
  is not part of the repository. Section 4.2 of the specification describes it: a recursive
  key-wise merge; for a key present in both documents whose values are both mappings the
  values are merged recursively, otherwise the override value replaces the base value; keys
  present only in the base are kept, keys present only in the override are added.
  \<open>merge_items dest src\<close> walks the keys of \<open>src\<close> in order and merges each into \<open>dest\<close>;
  \<open>merge_key\<close> updates a key of \<open>dest\<close> in place or appends it. Strings are plain data:
  the library's interpolation and missing-value markers are not part of the model.
\<close>

function (sequential) merge_node :: "pyval \<Rightarrow> pyval \<Rightarrow> pyval"
  and merge_key :: "(pystr \<times> pyval) list \<Rightarrow> pystr \<Rightarrow> pyval \<Rightarrow> (pystr \<times> pyval) list"
  and merge_items :: "(pystr \<times> pyval) list \<Rightarrow> (pystr \<times> pyval) list \<Rightarrow> (pystr \<times> pyval) list"
where
  "merge_node (PDict dest) (PDict src) = PDict (merge_items dest src)"
| "merge_node dest src = src"
| "merge_key [] key src = [(key, src)]"
| "merge_key ((k, v) # dest) key src =
     (if k = key then (k, merge_node v src) # dest else (k, v) # merge_key dest key src)"
| "merge_items dest [] = dest"
| "merge_items dest ((key, src) # rest) = merge_items (merge_key dest key src) rest"
  by pat_completeness auto
termination
  by (relation "inv_image (less_than <*lex*> less_than)
     (\<lambda>x. case x of
         Inl (dest, src) \<Rightarrow> (size src, 0)
       | Inr (Inl (dest, key, src)) \<Rightarrow> (size src, Suc (length dest))
       | Inr (Inr (dest, src)) \<Rightarrow> (size_list (size_prod (\<lambda>_. 0) size) src, 0))")
    auto

text \<open>
  The call \<^verbatim>\<open>OmegaConf.merge(a, b)\<close> itself: two mappings are merged, of two lists the
  second replaces the first, and any other pair of operands is refused with an exception.
\<close>

fun OmegaConf_merge :: "pyval \<Rightarrow> pyval \<Rightarrow> exn + pyval" where
  "OmegaConf_merge (PDict dest) (PDict src) = Inr (merge_node (PDict dest) (PDict src))"
| "OmegaConf_merge (PList dest) (PList src) = Inr (PList src)"
| "OmegaConf_merge dest src = Inl (Exc (ustr ''TypeError''))"

text \<open>
  Access to a configuration object: \<^verbatim>\<open>hasattr(cfg, key)\<close>, \<^verbatim>\<open>cfg.key\<close> (which raises for
  a key that is not there), and the assignment \<^verbatim>\<open>cfg[key] = v\<close>, which keeps the
  position of a key already present and appends a new one.
\<close>

fun hasattr :: "pyval \<Rightarrow> pystr \<Rightarrow> bool" where
  "hasattr (PDict kvs) key = (map_of kvs key \<noteq> None)"
| "hasattr v key = False"

fun getattr :: "pyval \<Rightarrow> pystr \<Rightarrow> exn + pyval" where
  "getattr (PDict kvs) key =
     (case map_of kvs key of None \<Rightarrow> Inl (Exc (ustr ''ConfigAttributeError'')) | Some v \<Rightarrow> Inr v)"
| "getattr v key = Inl (Exc (ustr ''AttributeError''))"

fun setitem :: "pyval \<Rightarrow> pystr \<Rightarrow> pyval \<Rightarrow> exn + pyval" where
  "setitem (PDict kvs) key v = Inr (PDict (AList.update key v kvs))"
| "setitem c key v = Inl (Exc (ustr ''TypeError''))"

text \<open>
  \<^verbatim>\<open>merge_configs\<close>, first step after the generic merge:
  \<^verbatim>\<open>if hasattr(keyword_cfg, "search_config"):
      merged_cfg.search = OmegaConf.merge(merged_cfg.search, keyword_cfg.search_config)\<close>
\<close>

definition override_search :: "pyval \<Rightarrow> pyval \<Rightarrow> exn + pyval" where
  "override_search merged_cfg keyword_cfg =
     (if hasattr keyword_cfg (ustr ''search_config'') then
        exn_bind (getattr merged_cfg (ustr ''search'')) (\<lambda>dest.
        exn_bind (getattr keyword_cfg (ustr ''search_config'')) (\<lambda>src.
        exn_bind (OmegaConf_merge dest src) (\<lambda>v.
        setitem merged_cfg (ustr ''search'') v)))
      else Inr merged_cfg)"

definition config_mappings :: "(pystr \<times> pystr) list" where
  "config_mappings =
     [((ustr ''intelligent_matching_config''), (ustr ''intelligent_matching'')),
      ((ustr ''download_config''), (ustr ''download'')),
      ((ustr ''display_config''), (ustr ''display'')),
      ((ustr ''output_config''), (ustr ''output''))]"

text \<open>
  The body of the loop over \<^verbatim>\<open>config_mappings\<close>: a canonical section that is missing is
  created empty before the legacy section is merged into it.
\<close>

definition remap_section :: "pyval \<Rightarrow> pyval \<Rightarrow> pystr \<Rightarrow> pystr \<Rightarrow> exn + pyval" where
  "remap_section merged_cfg keyword_cfg config_key global_key =
     (if hasattr keyword_cfg config_key then
        exn_bind (if \<not> hasattr merged_cfg global_key
                  then setitem merged_cfg global_key (PDict []) else Inr merged_cfg) (\<lambda>m.
        exn_bind (getattr m global_key) (\<lambda>dest.
        exn_bind (getattr keyword_cfg config_key) (\<lambda>src.
        exn_bind (OmegaConf_merge dest src) (\<lambda>v.
        setitem m global_key v))))
      else Inr merged_cfg)"

fun remap_loop :: "pyval \<Rightarrow> pyval \<Rightarrow> (pystr \<times> pystr) list \<Rightarrow> exn + pyval" where
  "remap_loop merged_cfg keyword_cfg [] = Inr merged_cfg"
| "remap_loop merged_cfg keyword_cfg ((config_key, global_key) # rest) =
     exn_bind (remap_section merged_cfg keyword_cfg config_key global_key)
       (\<lambda>m. remap_loop m keyword_cfg rest)"

definition merge_configs :: "pyval \<Rightarrow> pyval \<Rightarrow> exn + pyval" where
  "merge_configs global_cfg keyword_cfg =
     exn_bind (OmegaConf_merge global_cfg keyword_cfg) (\<lambda>merged_cfg.
     exn_bind (override_search merged_cfg keyword_cfg) (\<lambda>m.
     remap_loop m keyword_cfg config_mappings))"

text \<open>
  The five legacy sections with their canonical sections, and what the statements about
  documents need: a Python mapping has no key twice (\<open>wf_cfg\<close>), and a field is addressed
  by the path of keys that leads to it.
\<close>

definition legacy_sections :: "(pystr \<times> pystr) list" where
  "legacy_sections = ((ustr ''search_config''), (ustr ''search'')) # config_mappings"

fun wf_cfg :: "pyval \<Rightarrow> bool" where
  "wf_cfg (PDict kvs) = (distinct (map fst kvs) \<and> (\<forall>kv \<in> set kvs. wf_cfg (snd kv)))"
| "wf_cfg v = True"

fun is_mapping :: "pyval \<Rightarrow> bool" where
  "is_mapping (PDict kvs) = True"
| "is_mapping v = False"

fun lookup_path :: "pyval \<Rightarrow> pystr list \<Rightarrow> pyval option" where
  "lookup_path v [] = Some v"
| "lookup_path (PDict kvs) (k # p) =
     (case map_of kvs k of None \<Rightarrow> None | Some v \<Rightarrow> lookup_path v p)"
| "lookup_path v (k # p) = None"

text \<open>
  A legacy section of a document is absorbed by its canonical section when the document
  has the canonical section as well and merging the legacy section into it gives the
  canonical section back; a legacy section the document does not have is absorbed.
\<close>

definition absorbed :: "pyval \<Rightarrow> pystr \<Rightarrow> pystr \<Rightarrow> bool" where
  "absorbed c config_key global_key =
     (case getattr c config_key of
        Inl e \<Rightarrow> True
      | Inr src \<Rightarrow>
          (case getattr c global_key of
             Inl e \<Rightarrow> False
           | Inr dest \<Rightarrow> OmegaConf_merge dest src = Inr dest))"

section \<open>Results, collaborators and the process state\<close>

text \<open>
  The string constants of the module that are not ASCII: the token removed from a
  profile's name, the suffix of every table name, and the two error messages of the
  Runner.
\<close>

definition researcher :: pystr where
  "researcher = [0x7814, 0x7A76, 0x5458]"

definition paper_table :: pystr where
  "paper_table = [0x8BBA, 0x6587, 0x8868]"

definition config_not_found :: pystr where
  "config_not_found = [0x914D, 0x7F6E, 0x6587, 0x4EF6, 0x4E0D, 0x5B58, 0x5728, 0x3A, 0x20]"

definition start_date_required :: pystr where
  "start_date_required =
     [0x65E5, 0x671F, 0x8303, 0x56F4, 0x641C, 0x7D22, 0x9700, 0x8981, 0x6307, 0x5B9A, 0x5F00,
      0x59CB, 0x65E5, 0x671F]"

text \<open>
  The state the module changes is the process environment \<^verbatim>\<open>os.environ\<close>. The trace
  records, in order, the writes to the environment, the call of the sync collaborator and
  the entries into \<^verbatim>\<open>process_single_config\<close> and \<^verbatim>\<open>send_batch_summary_notification\<close>.
\<close>

datatype event =
    SetEnv pystr pystr
  | PopEnv pystr
  | SyncCall
  | RunnerCall pystr
  | NotifierCall

record state =
  environ :: "pystr \<rightharpoonup> pystr"
  trace :: "event list"

text \<open>
  The dictionary \<^verbatim>\<open>process_single_config\<close> returns. \<^verbatim>\<open>new_papers\<close> is a Python integer;
  a boolean there counts as 0 or 1, as it does in the sums and comparisons that read it.
  The papers themselves are opaque (\<open>'p\<close>).
\<close>

record 'p result =
  config_name :: pystr
  success :: bool
  error :: "pystr option"
  new_papers :: int
  total_papers :: int
  research_area :: pyval
  table_name :: pystr
  ranked_papers :: "'p list"

text \<open>The per-topic entry and the recommended papers of the summary notification.\<close>

record topic_stats =
  new_count :: int
  total_count :: int
  stats_table_name :: pystr

datatype 'p representative = Papers "'p list" | Placeholder pyval pystr int

text \<open>
  Everything outside the module: the file system, the YAML loader, the retrieval, ranking,
  sync and notification collaborators. Each call returns a value or raises. The sync
  collaborator reads the environment and may change it. \<^verbatim>\<open>load_yaml\<close> stands for opening
  the file, \<^verbatim>\<open>yaml.safe_load\<close> and \<^verbatim>\<open>OmegaConf.create\<close>; \<^verbatim>\<open>filter_and_rank_papers\<close> returns
  the ranked papers of its triple and receives the score weights before \<^verbatim>\<open>dict(...)\<close> is
  applied to them; the notifier's methods are on the record directly.
\<close>

record 'p world =
  FEISHU_AVAILABLE :: bool
  module_dir :: pystr
  glob_glob :: "pystr \<Rightarrow> pystr list"
  path_exists :: "pystr \<Rightarrow> bool"
  load_yaml :: "pystr \<Rightarrow> exn + pyval"
  ArxivAPI :: "pyval \<Rightarrow> exn + unit"
  PaperRanker :: "exn + unit"
  get_papers_by_date_range :: "pyval \<Rightarrow> pyval \<Rightarrow> pyval \<Rightarrow> pyval \<Rightarrow> pyval \<Rightarrow> exn + 'p list"
  get_recent_papers :: "pyval \<Rightarrow> pyval \<Rightarrow> pyval \<Rightarrow> pyval \<Rightarrow> exn + 'p list"
  filter_and_rank_papers ::
    "'p list \<Rightarrow> pystr list \<Rightarrow> pystr list \<Rightarrow> pyval \<Rightarrow> pyval \<Rightarrow> pyval option \<Rightarrow> pyval \<Rightarrow> pyval
       \<Rightarrow> exn + 'p list"
  sync_papers_to_feishu ::
    "'p list \<Rightarrow> pyval \<Rightarrow> (pystr \<rightharpoonup> pystr) \<Rightarrow> (exn + pyval) \<times> (pystr \<rightharpoonup> pystr)"
  create_chat_notifier_from_config :: "pyval \<Rightarrow> exn + unit"
  generate_table_link :: "pystr \<Rightarrow> exn + pyval"
  notify_paper_updates ::
    "(pyval \<times> topic_stats) list \<Rightarrow> (pyval \<times> 'p representative) list
       \<Rightarrow> (pyval \<times> pyval) list \<Rightarrow> exn + bool"

section \<open>Profile Discoverer\<close>

text \<open>\<^verbatim>\<open>os.path.join\<close> of two components and \<^verbatim>\<open>os.path.basename\<close>, on POSIX paths
  (47 is the slash).\<close>

definition path_join :: "pystr \<Rightarrow> pystr \<Rightarrow> pystr" where
  "path_join a b =
     (if startswith b (ustr ''/'') then b
      else if a = [] \<or> last a = 47 then a @ b
      else a @ (ustr ''/'') @ b)"

definition basename :: "pystr \<Rightarrow> pystr" where
  "basename p = rev (takeWhile (\<lambda>c. c \<noteq> 47) (rev p))"

definition find_sync_configs :: "'p world \<Rightarrow> pystr list" where
  "find_sync_configs w =
     (let conf_dir = path_join (module_dir w) (ustr ''conf'');
          pattern = path_join conf_dir (ustr ''sync*.yaml'');
          sync_configs = glob_glob w pattern
      in map (\<lambda>config. replace (basename config) (ustr ''.yaml'') []) sync_configs)"

section \<open>Profile Runner\<close>

text \<open>
  \<^verbatim>\<open>x.get(key, default)\<close>: on a mapping the value of the key, or the default when the key
  is missing; anything else has no such method. \<^verbatim>\<open>x.replace(old, new)\<close> exists on strings
  only.
\<close>

fun py_get :: "pyval \<Rightarrow> pystr \<Rightarrow> pyval \<Rightarrow> exn + pyval" where
  "py_get (PDict kvs) key dflt = Inr (case map_of kvs key of None \<Rightarrow> dflt | Some v \<Rightarrow> v)"
| "py_get v key dflt = Inl (Exc (ustr ''AttributeError''))"

fun str_replace :: "pyval \<Rightarrow> pystr \<Rightarrow> pystr \<Rightarrow> exn + pystr" where
  "str_replace (PStr s) old new = Inr (replace s old new)"
| "str_replace v old new = Inl (Exc (ustr ''AttributeError''))"

text \<open>
  The two label expressions of the returned dictionaries:
  \<^verbatim>\<open>final_cfg.get("user_profile", {}).get("research_area", config_name.replace("sync_", ""))\<close>
  and \<^verbatim>\<open>final_cfg.get("user_profile", {}).get("name", "").replace(T, "") + S\<close>, which two of
  the four return statements write with \<^verbatim>\<open>.strip()\<close> before the suffix is added.
\<close>

definition research_area_of :: "pyval \<Rightarrow> pystr \<Rightarrow> exn + pyval" where
  "research_area_of final_cfg name =
     exn_bind (py_get final_cfg (ustr ''user_profile'') (PDict [])) (\<lambda>user_profile.
     py_get user_profile (ustr ''research_area'') (PStr (replace name (ustr ''sync_'') [])))"

definition table_name_of :: "pyval \<Rightarrow> bool \<Rightarrow> exn + pystr" where
  "table_name_of final_cfg stripped =
     exn_bind (py_get final_cfg (ustr ''user_profile'') (PDict [])) (\<lambda>user_profile.
     exn_bind (py_get user_profile (ustr ''name'') (PStr [])) (\<lambda>name.
     exn_bind (str_replace name researcher []) (\<lambda>s.
     Inr ((if stripped then strip s else s) @ paper_table))))"

definition make_result ::
  "pyval \<Rightarrow> pystr \<Rightarrow> bool \<Rightarrow> pystr option \<Rightarrow> int \<Rightarrow> int \<Rightarrow> bool \<Rightarrow> 'p list \<Rightarrow> exn + 'p result" where
  "make_result final_cfg name ok err n_new n_total stripped ranked =
     exn_bind (research_area_of final_cfg name) (\<lambda>area.
     exn_bind (table_name_of final_cfg stripped) (\<lambda>tbl.
     Inr \<lparr>config_name = name, success = ok, error = err, new_papers = n_new,
          total_papers = n_total, research_area = area, table_name = tbl,
          ranked_papers = ranked\<rparr>))"

text \<open>The defaults \<^verbatim>\<open>process_single_config\<close> merges an extended profile document over.\<close>

definition base_cfg :: pyval where
  "base_cfg = PDict
     [((ustr ''search''), PDict [((ustr ''days''), PInt 7), ((ustr ''max_results''), PInt 300), ((ustr ''max_display''), PInt 10),
         ((ustr ''min_score''), PFloat (1 / 10)), ((ustr ''field''), PStr (ustr ''all''))]),
      ((ustr ''download''), PDict [((ustr ''enabled''), PBool False), ((ustr ''max_downloads''), PInt 10),
         ((ustr ''download_dir''), PStr (ustr ''downloads''))]),
      ((ustr ''intelligent_matching''), PDict [((ustr ''enabled''), PBool False),
         ((ustr ''score_weights''), PDict [((ustr ''base''), PFloat 1), ((ustr ''semantic''), PFloat (3 / 10))])]),
      ((ustr ''display''), PDict [((ustr ''show_ranking''), PBool True), ((ustr ''show_scores''), PBool True),
         ((ustr ''show_breakdown''), PBool False), ((ustr ''stats''), PBool True)]),
      ((ustr ''output''), PDict [((ustr ''save''), PBool True), ((ustr ''save_keywords''), PBool False),
         ((ustr ''include_scores''), PBool True), ((ustr ''format''), PStr (ustr ''markdown''))])]"

definition load_final_cfg :: "'p world \<Rightarrow> pystr \<Rightarrow> exn + pyval" where
  "load_final_cfg w config_path =
     exn_bind (load_yaml w config_path) (\<lambda>cfg.
     if hasattr cfg (ustr ''search_config'') \<or> hasattr cfg (ustr ''user_profile'')
     then merge_configs base_cfg cfg
     else Inr cfg)"

text \<open>
  \<^verbatim>\<open>load_keywords_from_config\<close>. \<open>to_list\<close> is \<^verbatim>\<open>list(raw)\<close>, applied to the OmegaConf
  containers only (the values with a \<^verbatim>\<open>_content\<close> attribute).
\<close>

fun to_list :: "pyval \<Rightarrow> pyval" where
  "to_list (PDict kvs) = PList (map (\<lambda>kv. PStr (fst kv)) kvs)"
| "to_list v = v"

definition load_keywords_from_config ::
  "pyval \<Rightarrow> exn + (pystr list \<times> pystr list \<times> pyval \<times> pyval)" where
  "load_keywords_from_config cfg =
     exn_bind (if hasattr cfg (ustr ''keywords'') then getattr cfg (ustr ''keywords'') else Inr cfg) (\<lambda>src.
     exn_bind (py_get src (ustr ''interest_keywords'') (PList [])) (\<lambda>raw_interest.
     exn_bind (py_get src (ustr ''exclude_keywords'') (PList [])) (\<lambda>raw_exclude.
     let raw_interest_keywords = to_list raw_interest;
         raw_exclude_keywords = to_list raw_exclude
     in exn_bind (filter_keywords raw_interest_keywords) (\<lambda>interest_keywords.
        exn_bind (filter_keywords raw_exclude_keywords) (\<lambda>exclude_keywords.
        exn_bind (py_get cfg (ustr ''required_keywords'') (PDict [])) (\<lambda>required_keywords_config.
        Inr (interest_keywords, exclude_keywords, raw_interest_keywords,
             required_keywords_config)))))))"

text \<open>
  Retrieval: by date range when \<^verbatim>\<open>search.date_range.enabled\<close> is truthy, where a missing
  start date ends the run with a failure result (\<open>Inl\<close>) before any retrieval; by the last
  \<^verbatim>\<open>days\<close> days otherwise.
\<close>

definition fetch_papers ::
  "'p world \<Rightarrow> pystr \<Rightarrow> pyval \<Rightarrow> pyval \<Rightarrow> exn + ('p result + 'p list)" where
  "fetch_papers w name final_cfg search_cfg =
     exn_bind (py_get search_cfg (ustr ''date_range'') (PDict [])) (\<lambda>date_range_cfg.
     exn_bind (py_get search_cfg (ustr ''batch_processing'') (PDict [])) (\<lambda>batch_processing_cfg.
     exn_bind (py_get date_range_cfg (ustr ''enabled'') (PBool False)) (\<lambda>enabled.
     if truthy enabled then
       exn_bind (py_get date_range_cfg (ustr ''start_date'') (PStr [])) (\<lambda>start_date.
       exn_bind (py_get date_range_cfg (ustr ''end_date'') (PStr [])) (\<lambda>end_date.
       if \<not> truthy start_date then
         exn_bind (make_result final_cfg name False (Some start_date_required) 0 0 False [])
           (\<lambda>r. Inr (Inl r))
       else
         exn_bind (py_get search_cfg (ustr ''max_results'') (PInt 300)) (\<lambda>max_results.
         exn_bind (py_get search_cfg (ustr ''field'') (PStr (ustr ''all''))) (\<lambda>field_type.
         exn_bind (get_papers_by_date_range w start_date end_date max_results field_type
                     batch_processing_cfg) (\<lambda>papers.
         Inr (Inr papers))))))
     else
       exn_bind (py_get search_cfg (ustr ''days'') (PInt 7)) (\<lambda>days.
       exn_bind (py_get search_cfg (ustr ''max_results'') (PInt 300)) (\<lambda>max_results.
       exn_bind (py_get search_cfg (ustr ''field'') (PStr (ustr ''all''))) (\<lambda>field_type.
       exn_bind (get_recent_papers w days max_results field_type batch_processing_cfg) (\<lambda>papers.
       Inr (Inr papers))))))))"

definition rank_papers ::
  "'p world \<Rightarrow> pyval \<Rightarrow> pyval \<Rightarrow> 'p list \<Rightarrow> pystr list \<Rightarrow> pystr list \<Rightarrow> pyval \<Rightarrow> pyval
     \<Rightarrow> exn + 'p list" where
  "rank_papers w final_cfg search_cfg papers interest_keywords exclude_keywords
       raw_interest_keywords required_keywords_config =
     exn_bind (py_get final_cfg (ustr ''intelligent_matching'') (PDict [])) (\<lambda>intelligent_cfg.
     exn_bind (py_get intelligent_cfg (ustr ''enabled'') (PBool False)) (\<lambda>use_intelligent.
     exn_bind (if truthy use_intelligent
               then exn_bind (py_get intelligent_cfg (ustr ''score_weights'') (PDict [])) (\<lambda>sw. Inr (Some sw))
               else Inr None) (\<lambda>score_weights.
     exn_bind (py_get search_cfg (ustr ''min_score'') (PFloat (1 / 10))) (\<lambda>min_score.
     filter_and_rank_papers w papers interest_keywords exclude_keywords min_score
       use_intelligent score_weights raw_interest_keywords required_keywords_config))))"

text \<open>
  The body of \<^verbatim>\<open>process_single_config\<close> up to the ranking. It either ends the run with a
  result (the profile document is missing, the start date is missing, nothing was
  retrieved, no keyword is configured) or hands the effective configuration and the ranked
  papers to the sync step.
\<close>

datatype 'p stage = Finished "'p result" | Ranked pyval "'p list"

definition prepare :: "'p world \<Rightarrow> pystr \<Rightarrow> exn + 'p stage" where
  "prepare w name =
     (let config_path = path_join (ustr ''conf'') (name @ (ustr ''.yaml'')) in
      if \<not> path_exists w config_path then
        Inr (Finished \<lparr>config_name = name, success = False,
               error = Some (config_not_found @ config_path), new_papers = 0, total_papers = 0,
               research_area = PStr [], table_name = [], ranked_papers = []\<rparr>)
      else
        exn_bind (load_final_cfg w config_path) (\<lambda>final_cfg.
        exn_bind (py_get final_cfg (ustr ''download'') (PDict [])) (\<lambda>download_cfg.
        exn_bind (py_get download_cfg (ustr ''download_dir'') (PStr (ustr ''downloads''))) (\<lambda>download_dir.
        exn_bind (ArxivAPI w download_dir) (\<lambda>arxiv_api.
        exn_bind (PaperRanker w) (\<lambda>paper_ranker.
        exn_bind (load_keywords_from_config final_cfg)
          (\<lambda>(interest_keywords, exclude_keywords, raw_interest_keywords, required_keywords_config).
        exn_bind (py_get final_cfg (ustr ''search'') (PDict [])) (\<lambda>search_cfg.
        exn_bind (fetch_papers w name final_cfg search_cfg) (\<lambda>fetched.
        case fetched of
          Inl r \<Rightarrow> Inr (Finished r)
        | Inr papers \<Rightarrow>
            if papers = [] then
              exn_bind (make_result final_cfg name True None 0 0 False []) (\<lambda>r. Inr (Finished r))
            else if interest_keywords \<noteq> [] \<or> exclude_keywords \<noteq> [] then
              exn_bind (rank_papers w final_cfg search_cfg papers interest_keywords
                          exclude_keywords raw_interest_keywords required_keywords_config)
                (\<lambda>ranked_papers. Inr (Ranked final_cfg ranked_papers))
            else
              exn_bind (make_result final_cfg name True None 0 (int (length papers)) True [])
                (\<lambda>r. Inr (Finished r)))))))))))"

text \<open>
  What the Runner makes of the value the sync call returns:
  \<^verbatim>\<open>if isinstance(sync_result, int): synced_count = sync_result
  elif sync_result is True: synced_count = 0
  else: synced_count = 0\<close>
  A Python boolean is an instance of \<^verbatim>\<open>int\<close>, with the values 0 and 1.
\<close>

fun isinstance_int :: "pyval \<Rightarrow> bool" where
  "isinstance_int (PInt n) = True"
| "isinstance_int (PBool b) = True"
| "isinstance_int v = False"

fun int_value :: "pyval \<Rightarrow> int" where
  "int_value (PInt n) = n"
| "int_value (PBool b) = (if b then 1 else 0)"
| "int_value v = 0"

definition synced_count_of :: "pyval \<Rightarrow> int" where
  "synced_count_of sync_result =
     (if isinstance_int sync_result then int_value sync_result
      else if sync_result = PBool True then 0
      else 0)"

text \<open>
  The sync step: \<^verbatim>\<open>os.environ["BATCH_MODE"] = "1"\<close>, then the call inside
  \<^verbatim>\<open>try\<close>, with \<^verbatim>\<open>except Exception\<close> setting the count to 0 and
  \<^verbatim>\<open>finally: os.environ.pop("BATCH_MODE", None)\<close> running on every way out, also when the
  exception is not an \<^verbatim>\<open>Exception\<close> and goes on.
\<close>

definition sync_step :: "'p world \<Rightarrow> 'p list \<Rightarrow> pyval \<Rightarrow> state \<Rightarrow> (exn + int) \<times> state" where
  "sync_step w ranked final_cfg st =
     (let st1 = st\<lparr>environ := (environ st)((ustr ''BATCH_MODE'') \<mapsto> (ustr ''1'')),
                   trace := trace st @ [SetEnv (ustr ''BATCH_MODE'') (ustr ''1'')]\<rparr>;
          called = sync_papers_to_feishu w ranked final_cfg (environ st1);
          st2 = st1\<lparr>environ := snd called, trace := trace st1 @ [SyncCall]\<rparr>;
          synced_count =
            (case fst called of
               Inr sync_result \<Rightarrow> Inr (synced_count_of sync_result)
             | Inl (Exc sync_error) \<Rightarrow> Inr 0
             | Inl (BaseExc e) \<Rightarrow> Inl (BaseExc e));
          st3 = st2\<lparr>environ := (environ st2)((ustr ''BATCH_MODE'') := None),
                    trace := trace st2 @ [PopEnv (ustr ''BATCH_MODE'')]\<rparr>
      in (synced_count, st3))"

text \<open>The body of the outer \<^verbatim>\<open>try\<close> of \<^verbatim>\<open>process_single_config\<close>.\<close>

definition run_pipeline :: "'p world \<Rightarrow> state \<Rightarrow> pystr \<Rightarrow> (exn + 'p result) \<times> state" where
  "run_pipeline w st name =
     (case prepare w name of
        Inl e \<Rightarrow> (Inl e, st)
      | Inr (Finished r) \<Rightarrow> (Inr r, st)
      | Inr (Ranked final_cfg ranked) \<Rightarrow>
          (let synced = (if ranked \<noteq> [] \<and> FEISHU_AVAILABLE w
                         then sync_step w ranked final_cfg st
                         else (Inr 0, st))
           in (exn_bind (fst synced) (\<lambda>synced_count.
                 make_result final_cfg name True None (max synced_count 0)
                   (int (length ranked)) True (take 1 ranked)),
               snd synced)))"

text \<open>
  \<^verbatim>\<open>process_single_config\<close>: the outer \<^verbatim>\<open>except Exception as e\<close> turns an exception of the
  body into a failure result whose labels come from the profile identifier.
\<close>

definition process_single_config :: "'p world \<Rightarrow> state \<Rightarrow> pystr \<Rightarrow> (exn + 'p result) \<times> state" where
  "process_single_config w st name =
     (let ran = run_pipeline w (st\<lparr>trace := trace st @ [RunnerCall name]\<rparr>) name in
      case fst ran of
        Inl (Exc e) \<Rightarrow>
          (Inr \<lparr>config_name = name, success = False, error = Some e, new_papers = 0,
                total_papers = 0, research_area = PStr (replace name (ustr ''sync_'') []),
                table_name = replace name (ustr ''sync_'') [] @ paper_table, ranked_papers = []\<rparr>,
           snd ran)
      | other \<Rightarrow> (other, snd ran))"

section \<open>Summary Notifier\<close>

text \<open>
  The topic of a result:
  \<^verbatim>\<open>result["table_name"].replace(S, "").strip() or result["research_area"]\<close>
  with \<open>S\<close> the table suffix. The topic is the key of the three dictionaries of the
  summary.
\<close>

definition field_name :: "'p result \<Rightarrow> pyval" where
  "field_name result =
     (let stripped = strip (replace (table_name result) paper_table [])
      in if stripped \<noteq> [] then PStr stripped else research_area result)"

definition stats_entry :: "'p result \<Rightarrow> topic_stats" where
  "stats_entry result =
     \<lparr>new_count = new_papers result, total_count = total_papers result,
      stats_table_name = table_name result\<rparr>"

text \<open>
  The recommended papers of a topic: the papers of the result, or one synthesized entry
  made of the topic, the profile identifier and the number of new papers.
\<close>

definition representative_of :: "'p result \<Rightarrow> 'p representative" where
  "representative_of result =
     (if ranked_papers result \<noteq> [] then Papers (ranked_papers result)
      else Placeholder (field_name result) (config_name result) (new_papers result))"

text \<open>
  The keys of a Python dictionary. Two keys are one key when they are equal and hash
  alike: booleans, integers and floats by their value (\<^verbatim>\<open>True\<close>, \<^verbatim>\<open>1\<close> and \<^verbatim>\<open>1.0\<close> are
  one key), strings and \<^verbatim>\<open>None\<close> as they are, and so the OmegaConf containers, which
  hash by their printed form. The assignment \<^verbatim>\<open>d[k] = v\<close> replaces the value under a key
  that is there, which stays the key, and appends a new key; \<open>dict_get\<close> is the lookup.
\<close>

fun num_of :: "pyval \<Rightarrow> rat option" where
  "num_of (PBool b) = Some (if b then 1 else 0)"
| "num_of (PInt n) = Some (of_int n)"
| "num_of (PFloat r) = Some r"
| "num_of v = None"

definition key_eq :: "pyval \<Rightarrow> pyval \<Rightarrow> bool" where
  "key_eq a b = (case num_of a of Some x \<Rightarrow> num_of b = Some x | None \<Rightarrow> a = b)"

fun dict_set :: "pyval \<Rightarrow> 'v \<Rightarrow> (pyval \<times> 'v) list \<Rightarrow> (pyval \<times> 'v) list" where
  "dict_set key v [] = [(key, v)]"
| "dict_set key v ((k, old) # d) =
     (if key_eq k key then (k, v) # d else (k, old) # dict_set key v d)"

fun dict_get :: "(pyval \<times> 'v) list \<Rightarrow> pyval \<Rightarrow> 'v option" where
  "dict_get [] key = None"
| "dict_get ((k, v) # d) key = (if key_eq k key then Some v else dict_get d key)"

text \<open>
  The loop over the results, on the dictionaries \<^verbatim>\<open>update_stats\<close>, \<^verbatim>\<open>papers_by_field\<close>
  and \<^verbatim>\<open>table_links\<close>.
\<close>

fun summary_loop ::
  "'p world \<Rightarrow> 'p result list
     \<Rightarrow> (pyval \<times> topic_stats) list \<times> (pyval \<times> 'p representative) list \<times> (pyval \<times> pyval) list
     \<Rightarrow> exn + ((pyval \<times> topic_stats) list \<times> (pyval \<times> 'p representative) list
              \<times> (pyval \<times> pyval) list)" where
  "summary_loop w [] acc = Inr acc"
| "summary_loop w (result # rest) (update_stats, papers_by_field, table_links) =
     (if success result \<and> new_papers result > 0 then
        exn_bind (generate_table_link w (table_name result)) (\<lambda>table_link.
        summary_loop w rest
          (dict_set (field_name result) (stats_entry result) update_stats,
           dict_set (field_name result) (representative_of result) papers_by_field,
           if truthy table_link then dict_set (field_name result) table_link table_links
           else table_links))
      else summary_loop w rest (update_stats, papers_by_field, table_links))"

text \<open>
  \<^verbatim>\<open>send_batch_summary_notification\<close>: any \<^verbatim>\<open>Exception\<close> inside gives \<^verbatim>\<open>False\<close>.
\<close>

definition send_batch_summary_notification ::
  "'p world \<Rightarrow> state \<Rightarrow> 'p result list \<Rightarrow> (exn + bool) \<times> state" where
  "send_batch_summary_notification w st results =
     (let body =
        (if \<not> FEISHU_AVAILABLE w then Inr False
         else
           exn_bind (load_yaml w (ustr ''conf/default.yaml'')) (\<lambda>default_cfg.
           exn_bind (create_chat_notifier_from_config w default_cfg) (\<lambda>notifier.
           exn_bind (summary_loop w results ([], [], []))
             (\<lambda>(update_stats, papers_by_field, table_links).
           if update_stats = [] then Inr True
           else notify_paper_updates w update_stats papers_by_field table_links))))
      in (case body of Inl (Exc e) \<Rightarrow> Inr False | other \<Rightarrow> other,
          st\<lparr>trace := trace st @ [NotifierCall]\<rparr>))"

section \<open>Batch Aggregator\<close>

text \<open>
  The loop of \<^verbatim>\<open>process_all_configs\<close> over the discovered profiles, with the list of
  results, the sum of new papers and the number of succeeded profiles built so far.
\<close>

fun run_configs ::
  "'p world \<Rightarrow> pystr list \<Rightarrow> 'p result list \<Rightarrow> int \<Rightarrow> nat \<Rightarrow> state
     \<Rightarrow> (exn + ('p result list \<times> int \<times> nat)) \<times> state" where
  "run_configs w [] all_results total_new_papers successful_configs st =
     (Inr (all_results, total_new_papers, successful_configs), st)"
| "run_configs w (name # rest) all_results total_new_papers successful_configs st =
     (let ran = process_single_config w st name in
      case fst ran of
        Inl e \<Rightarrow> (Inl e, snd ran)
      | Inr result \<Rightarrow>
          if success result
          then run_configs w rest (all_results @ [result])
                 (total_new_papers + new_papers result) (successful_configs + 1) (snd ran)
          else run_configs w rest (all_results @ [result])
                 total_new_papers successful_configs (snd ran))"

definition process_all_configs :: "'p world \<Rightarrow> state \<Rightarrow> (exn + bool) \<times> state" where
  "process_all_configs w st =
     (let sync_configs = find_sync_configs w in
      if sync_configs = [] then (Inr False, st)
      else
        (let ran = run_configs w sync_configs [] 0 0 st in
         case fst ran of
           Inl (Exc e) \<Rightarrow> (Inr False, snd ran)
         | Inl (BaseExc e) \<Rightarrow> (Inl (BaseExc e), snd ran)
         | Inr (all_results, total_new_papers, successful_configs) \<Rightarrow>
             if total_new_papers > 0 then
               (let sent = send_batch_summary_notification w (snd ran) all_results in
                case fst sent of
                  Inl (Exc e) \<Rightarrow> (Inr False, snd sent)
                | other \<Rightarrow> (other, snd sent))
             else (Inr True, snd ran)))"

text \<open>The profile identifiers of the Runner invocations of a trace, in order.\<close>

fun runner_calls :: "event list \<Rightarrow> pystr list" where
  "runner_calls [] = []"
| "runner_calls (RunnerCall name # evs) = name # runner_calls evs"
| "runner_calls (ev # evs) = runner_calls evs"

section \<open>Concrete documents, worlds and results\<close>

text \<open>
  A document whose canonical and legacy search sections disagree, and one whose canonical
  search section already has the value of the legacy one.
\<close>

definition both_sections :: pyval where
  "both_sections = PDict
     [(ustr ''search'', PDict [(ustr ''days'', PInt 7)]),
      (ustr ''search_config'', PDict [(ustr ''days'', PInt 3)])]"

definition agree_sections :: pyval where
  "agree_sections = PDict
     [(ustr ''search'', PDict [(ustr ''days'', PInt 3), (ustr ''field'', PStr (ustr ''all''))]),
      (ustr ''search_config'', PDict [(ustr ''days'', PInt 3)])]"

text \<open>Defaults and an override whose legacy and canonical matching sections both set a weight.\<close>

definition legacy_base :: pyval where
  "legacy_base = PDict
     [((ustr ''intelligent_matching''), PDict [((ustr ''enabled''), PBool False),
         ((ustr ''score_weights''), PDict [((ustr ''base''), PInt 1), ((ustr ''semantic''), PInt 3)])])]"

definition legacy_override :: pyval where
  "legacy_override = PDict
     [((ustr ''intelligent_matching''), PDict [((ustr ''score_weights''), PDict [((ustr ''base''), PInt 5)])]),
      ((ustr ''intelligent_matching_config''), PDict [((ustr ''score_weights''), PDict [((ustr ''base''), PInt 2)])])]"

definition legacy_merged :: pyval where
  "legacy_merged = PDict
     [((ustr ''intelligent_matching''), PDict [((ustr ''enabled''), PBool False),
         ((ustr ''score_weights''), PDict [((ustr ''base''), PInt 2), ((ustr ''semantic''), PInt 3)])]),
      ((ustr ''intelligent_matching_config''), PDict [((ustr ''score_weights''), PDict [((ustr ''base''), PInt 2)])])]"

text \<open>
  A process with an empty environment; a profile document \<^verbatim>\<open>conf/sync_robotics.yaml\<close> and
  the configuration the Runner derives from it; a world in which retrieval finds three
  papers, ranking keeps two and the sync call ends as given; and a world in which two
  profiles are discovered and neither document exists.
\<close>

definition st0 :: state where
  "st0 = \<lparr>environ = Map.empty, trace = []\<rparr>"

definition demo_cfg :: pyval where
  "demo_cfg = PDict
     [((ustr ''user_profile''), PDict [((ustr ''name''), PStr ((ustr ''Robotics '') @ researcher)),
                               ((ustr ''research_area''), PStr (ustr ''robotics''))]),
      ((ustr ''interest_keywords''), PList [PStr (ustr ''# area''), PStr (ustr '' robot arm '')]),
      ((ustr ''search_config''), PDict [((ustr ''days''), PInt 3)])]"

definition demo_final_cfg :: pyval where
  "demo_final_cfg = PDict
     [((ustr ''search''), PDict [((ustr ''days''), PInt 3), ((ustr ''max_results''), PInt 300), ((ustr ''max_display''), PInt 10),
         ((ustr ''min_score''), PFloat (1 / 10)), ((ustr ''field''), PStr (ustr ''all''))]),
      ((ustr ''download''), PDict [((ustr ''enabled''), PBool False), ((ustr ''max_downloads''), PInt 10),
         ((ustr ''download_dir''), PStr (ustr ''downloads''))]),
      ((ustr ''intelligent_matching''), PDict [((ustr ''enabled''), PBool False),
         ((ustr ''score_weights''), PDict [((ustr ''base''), PFloat 1), ((ustr ''semantic''), PFloat (3 / 10))])]),
      ((ustr ''display''), PDict [((ustr ''show_ranking''), PBool True), ((ustr ''show_scores''), PBool True),
         ((ustr ''show_breakdown''), PBool False), ((ustr ''stats''), PBool True)]),
      ((ustr ''output''), PDict [((ustr ''save''), PBool True), ((ustr ''save_keywords''), PBool False),
         ((ustr ''include_scores''), PBool True), ((ustr ''format''), PStr (ustr ''markdown''))]),
      ((ustr ''user_profile''), PDict [((ustr ''name''), PStr ((ustr ''Robotics '') @ researcher)),
                               ((ustr ''research_area''), PStr (ustr ''robotics''))]),
      ((ustr ''interest_keywords''), PList [PStr (ustr ''# area''), PStr (ustr '' robot arm '')]),
      ((ustr ''search_config''), PDict [((ustr ''days''), PInt 3)])]"

definition demo_world :: "exn + pyval \<Rightarrow> nat world" where
  "demo_world outcome =
     \<lparr>FEISHU_AVAILABLE = True,
      module_dir = (ustr ''/app''),
      glob_glob = (\<lambda>pattern. [(ustr ''/app/conf/sync_robotics.yaml'')]),
      path_exists = (\<lambda>p. p = (ustr ''conf/sync_robotics.yaml'')),
      load_yaml = (\<lambda>p. Inr demo_cfg),
      ArxivAPI = (\<lambda>download_dir. Inr ()),
      PaperRanker = Inr (),
      get_papers_by_date_range = (\<lambda>start_date end_date max_results field_type batch. Inr []),
      get_recent_papers = (\<lambda>days max_results field_type batch. Inr [10, 20, 30]),
      filter_and_rank_papers = (\<lambda>papers ik ek min_score adv sw raw req. Inr (take 2 papers)),
      sync_papers_to_feishu = (\<lambda>papers cfg env. (outcome, env)),
      create_chat_notifier_from_config = (\<lambda>cfg. Inr ()),
      generate_table_link = (\<lambda>t. Inr PNone),
      notify_paper_updates = (\<lambda>stats papers links. Inr True)\<rparr>"

text \<open>
  The same world with a profile document whose \<^verbatim>\<open>user_profile.name\<close> is the number 123,
  and the configuration the Runner derives from it.
\<close>

definition bad_name_cfg :: pyval where
  "bad_name_cfg = PDict
     [(ustr ''user_profile'', PDict [(ustr ''name'', PInt 123)]),
      (ustr ''interest_keywords'', PList [PStr (ustr ''robot'')])]"

definition bad_name_final_cfg :: pyval where
  "bad_name_final_cfg = PDict
     [(ustr ''search'', PDict [(ustr ''days'', PInt 7), (ustr ''max_results'', PInt 300),
         (ustr ''max_display'', PInt 10), (ustr ''min_score'', PFloat (1 / 10)),
         (ustr ''field'', PStr (ustr ''all''))]),
      (ustr ''download'', PDict [(ustr ''enabled'', PBool False), (ustr ''max_downloads'', PInt 10),
         (ustr ''download_dir'', PStr (ustr ''downloads''))]),
      (ustr ''intelligent_matching'', PDict [(ustr ''enabled'', PBool False),
         (ustr ''score_weights'', PDict [(ustr ''base'', PFloat 1), (ustr ''semantic'', PFloat (3 / 10))])]),
      (ustr ''display'', PDict [(ustr ''show_ranking'', PBool True), (ustr ''show_scores'', PBool True),
         (ustr ''show_breakdown'', PBool False), (ustr ''stats'', PBool True)]),
      (ustr ''output'', PDict [(ustr ''save'', PBool True), (ustr ''save_keywords'', PBool False),
         (ustr ''include_scores'', PBool True), (ustr ''format'', PStr (ustr ''markdown''))]),
      (ustr ''user_profile'', PDict [(ustr ''name'', PInt 123)]),
      (ustr ''interest_keywords'', PList [PStr (ustr ''robot'')])]"

definition bad_name_world :: "exn + pyval \<Rightarrow> nat world" where
  "bad_name_world outcome = (demo_world outcome)\<lparr>load_yaml := (\<lambda>p. Inr bad_name_cfg)\<rparr>"

definition missing_world :: "nat world" where
  "missing_world =
     \<lparr>FEISHU_AVAILABLE = True,
      module_dir = (ustr ''/app''),
      glob_glob = (\<lambda>pattern. [(ustr ''/app/conf/sync_robotics.yaml''), (ustr ''/app/conf/sync_vision.yaml'')]),
      path_exists = (\<lambda>p. False),
      load_yaml = (\<lambda>p. Inl (Exc (ustr ''FileNotFoundError''))),
      ArxivAPI = (\<lambda>download_dir. Inr ()),
      PaperRanker = Inr (),
      get_papers_by_date_range = (\<lambda>start_date end_date max_results field_type batch. Inr []),
      get_recent_papers = (\<lambda>days max_results field_type batch. Inr []),
      filter_and_rank_papers = (\<lambda>papers ik ek min_score adv sw raw req. Inr papers),
      sync_papers_to_feishu = (\<lambda>papers cfg env. (Inr (PInt 0), env)),
      create_chat_notifier_from_config = (\<lambda>cfg. Inr ()),
      generate_table_link = (\<lambda>t. Inr PNone),
      notify_paper_updates = (\<lambda>stats papers links. Inr True)\<rparr>"

text \<open>
  Results for the summary: two with the topic \<^verbatim>\<open>Robotics\<close>, the second with a blank
  before the suffix; two whose table name leaves nothing after trimming, with the research
  areas \<^verbatim>\<open>1\<close> and \<^verbatim>\<open>True\<close>; a failed one; and one with no new paper.
\<close>

definition robotics_first :: "nat result" where
  "robotics_first =
     \<lparr>config_name = ustr ''sync_robotics'', success = True, error = None, new_papers = 2,
      total_papers = 5, research_area = PStr (ustr ''robotics''),
      table_name = ustr ''Robotics'' @ paper_table, ranked_papers = [10]\<rparr>"

definition robotics_second :: "nat result" where
  "robotics_second =
     \<lparr>config_name = ustr ''sync_manipulation'', success = True, error = None, new_papers = 2,
      total_papers = 7, research_area = PStr (ustr ''manipulation''),
      table_name = ustr ''Robotics '' @ paper_table, ranked_papers = []\<rparr>"

definition area_one :: "nat result" where
  "area_one =
     \<lparr>config_name = ustr ''sync_one'', success = True, error = None, new_papers = 3,
      total_papers = 3, research_area = PInt 1,
      table_name = [0x3000] @ paper_table, ranked_papers = []\<rparr>"

definition area_true :: "nat result" where
  "area_true =
     \<lparr>config_name = ustr ''sync_true'', success = True, error = None, new_papers = 4,
      total_papers = 4, research_area = PBool True,
      table_name = paper_table, ranked_papers = []\<rparr>"

definition failed_result :: "nat result" where
  "failed_result =
     \<lparr>config_name = ustr ''sync_failed'', success = False, error = Some (ustr ''boom''),
      new_papers = 5, total_papers = 5, research_area = PStr (ustr ''failed''),
      table_name = ustr ''Failed'' @ paper_table, ranked_papers = []\<rparr>"

definition idle_result :: "nat result" where
  "idle_result =
     \<lparr>config_name = ustr ''sync_idle'', success = True, error = None, new_papers = 0,
      total_papers = 9, research_area = PStr (ustr ''idle''),
      table_name = ustr ''Idle'' @ paper_table, ranked_papers = []\<rparr>"

section \<open>Properties of the Keyword Normalizer\<close>

lemma dropWhile_strip: "dropWhile is_space (strip s) = strip s"
proof -
  let ?t = "dropWhile is_space s"
  show ?thesis
  proof (cases "dropWhile is_space (rev ?t) = []")
    case True
    have "strip s = []" unfolding strip_def by (simp only: True rev.simps)
    then show ?thesis by simp
  next
    case False
    have t: "?t \<noteq> []"
    proof
      assume "?t = []"
      then have "dropWhile is_space (rev ?t) = []" by (simp only: rev.simps dropWhile.simps)
      with False show False by contradiction
    qed
    then have h: "\<not> is_space (hd ?t)" by (rule hd_dropWhile)
    have "last (dropWhile is_space (rev ?t)) = last (rev ?t)"
    proof (rule dropWhile_last)
      show "hd ?t \<in> set (rev ?t)" using t by simp
      show "\<not> is_space (hd ?t)" by (rule h)
    qed
    then have "hd (strip s) = hd ?t"
      using False t by (simp add: strip_def hd_rev last_rev)
    then show ?thesis
      using h by (simp add: dropWhile_eq_self_iff)
  qed
qed

lemma dropWhile_rev_strip: "dropWhile is_space (rev (strip s)) = rev (strip s)"
  by (simp add: strip_def)

lemma strip_strip: "strip (strip s) = strip s"
proof -
  have "strip (strip s) = rev (dropWhile is_space (rev (strip s)))"
    unfolding strip_def [of "strip s"] by (simp only: dropWhile_strip)
  then show ?thesis by (simp only: dropWhile_rev_strip rev_rev_ident)
qed

lemma strip_empty_iff: "strip s = [] \<longleftrightarrow> list_all is_space s"
proof
  assume "strip s = []"
  then have a: "dropWhile is_space (rev (dropWhile is_space s)) = []" by (simp add: strip_def)
  have "dropWhile is_space s = []"
  proof (rule ccontr)
    assume n: "dropWhile is_space s \<noteq> []"
    then have h: "\<not> is_space (hd (dropWhile is_space s))" by (rule hd_dropWhile)
    have m: "hd (dropWhile is_space s) \<in> set (rev (dropWhile is_space s))" using n by simp
    from a have "\<forall>x \<in> set (rev (dropWhile is_space s)). is_space x"
      by (simp only: dropWhile_eq_Nil_conv)
    with m h show False by blast
  qed
  then have "\<forall>x \<in> set s. is_space x" by (simp only: dropWhile_eq_Nil_conv)
  then show "list_all is_space s" by (simp only: list_all_iff)
next
  assume "list_all is_space s"
  then have "\<forall>x \<in> set s. is_space x" by (simp only: list_all_iff)
  then have d: "dropWhile is_space s = []" by (simp only: dropWhile_eq_Nil_conv)
  show "strip s = []" unfolding strip_def d by simp
qed

lemma strip_decompose:
  "\<exists>pre post. s = pre @ strip s @ post \<and> list_all is_space pre \<and> list_all is_space post"
proof -
  let ?t = "dropWhile is_space s"
  have a: "takeWhile is_space s @ ?t = s" by (rule takeWhile_dropWhile_id)
  have "rev (takeWhile is_space (rev ?t) @ dropWhile is_space (rev ?t)) = rev (rev ?t)"
    by (simp only: takeWhile_dropWhile_id)
  then have b: "strip s @ rev (takeWhile is_space (rev ?t)) = ?t"
    by (simp only: rev_append rev_rev_ident strip_def)
  have c: "list_all is_space (takeWhile is_space s)"
    by (auto simp: list_all_iff dest: set_takeWhileD)
  have d: "list_all is_space (rev (takeWhile is_space (rev ?t)))"
    by (auto simp: list_all_iff dest: set_takeWhileD)
  from a b have "s = takeWhile is_space s @ strip s @ rev (takeWhile is_space (rev ?t))" by simp
  with c d show ?thesis by blast
qed

lemma strip_ends:
  "strip s = [] \<or> (\<not> is_space (hd (strip s)) \<and> \<not> is_space (last (strip s)))"
proof (cases "strip s = []")
  case True
  then show ?thesis by simp
next
  case False
  have "dropWhile is_space (strip s) = strip s" by (rule dropWhile_strip)
  then have h: "\<not> is_space (hd (strip s))" using False by (simp add: dropWhile_eq_self_iff)
  let ?u = "dropWhile is_space (rev (dropWhile is_space s))"
  have u: "?u \<noteq> []" using False by (simp add: strip_def)
  then have "\<not> is_space (hd ?u)" by (rule hd_dropWhile)
  moreover have "last (strip s) = hd ?u" using u by (simp add: strip_def last_rev)
  ultimately show ?thesis using h by simp
qed

lemma is_keyword_strip: "is_keyword (strip k) = is_keyword k"
  by (simp add: is_keyword_def strip_strip strip_empty_iff [symmetric])

lemma filter_loop_strings:
  "filter_loop (map PStr ks) filtered = Inr (filtered @ map strip (filter is_keyword ks))"
proof (induction ks arbitrary: filtered)
  case Nil
  then show ?case by simp
next
  case (Cons k ks)
  have e: "k = [] \<Longrightarrow> strip k = []" by (simp add: strip_def)
  show ?case using e by (auto simp: Cons.IH is_keyword_def strip_empty_iff [symmetric])
qed

lemma filter_keywords_strings:
  "filter_keywords (PList (map PStr ks)) = Inr (map strip (filter is_keyword ks))"
proof (cases ks)
  case Nil
  then show ?thesis by (simp add: filter_keywords_def)
next
  case (Cons k ks')
  have "filter_loop (map PStr ks) [] = Inr (map strip (filter is_keyword ks))"
    by (simp only: filter_loop_strings append_Nil)
  moreover have "truthy (PList (map PStr ks))" using Cons by simp
  ultimately show ?thesis by (simp only: filter_keywords_def py_iter.simps exn_bind.simps not_True_eq_False if_False)
qed

lemma normalized_fixed: "map strip (filter is_keyword (map strip (filter is_keyword ks))) = map strip (filter is_keyword ks)"
  by (induction ks) (simp_all add: is_keyword_strip strip_strip)

text \<open>
  C6. For a raw keyword list \<open>ks\<close> (a list of strings), \<^verbatim>\<open>_filter_keywords\<close> returns, without
  raising, the trimmed forms of exactly the entries that are not all whitespace (the empty
  entry included) and whose trimmed form does not start with \<^verbatim>\<open>#\<close>, in input order and
  with duplicates kept: it is a \<open>map\<close> of a \<open>filter\<close> of the input. An absent (\<^verbatim>\<open>None\<close>)
  or empty input gives the empty list, and normalizing the normalized list again returns
  it unchanged. The trimmed form \<open>strip s\<close> of a string is what is left of \<open>s\<close> between
  a prefix and a suffix of whitespace characters, and it neither starts nor ends with
  one. On a list with an entry padded by U+3000, an entry that is a no-break space, a
  comment after a blank, a duplicate and an empty entry, the result is the two trimmed
  keywords.
\<close>

theorem filter_keywords_normalizes:
  "filter_keywords (PList (map PStr ks)) = Inr (map strip (filter is_keyword ks))
   \<and> filter_keywords PNone = Inr []
   \<and> filter_keywords (PList []) = Inr []
   \<and> filter_keywords (PList (map PStr (map strip (filter is_keyword ks))))
       = Inr (map strip (filter is_keyword ks))
   \<and> (\<exists>pre post. s = pre @ strip s @ post \<and> list_all is_space pre \<and> list_all is_space post)
   \<and> (strip s = [] \<or> (\<not> is_space (hd (strip s)) \<and> \<not> is_space (last (strip s))))
   \<and> filter_keywords (PList [PStr ([0x3000] @ ustr ''robot'' @ [0x3000, 32]), PStr [0xA0],
          PStr (ustr '' # old''), PStr (ustr ''robot''), PStr []])
       = Inr [ustr ''robot'', ustr ''robot'']"
proof -
  have a: "filter_keywords (PList (map PStr ks)) = Inr (map strip (filter is_keyword ks))"
    by (rule filter_keywords_strings)
  have b: "filter_keywords PNone = Inr []" by (simp add: filter_keywords_def)
  have c: "filter_keywords (PList []) = Inr []" by (simp add: filter_keywords_def)
  have d: "filter_keywords (PList (map PStr (map strip (filter is_keyword ks))))
       = Inr (map strip (filter is_keyword ks))"
    by (simp only: filter_keywords_strings normalized_fixed)
  have e: "\<exists>pre post. s = pre @ strip s @ post \<and> list_all is_space pre \<and> list_all is_space post"
    by (rule strip_decompose)
  have f: "strip s = [] \<or> (\<not> is_space (hd (strip s)) \<and> \<not> is_space (last (strip s)))"
    by (rule strip_ends)
  have g: "filter_keywords (PList [PStr ([0x3000] @ ustr ''robot'' @ [0x3000, 32]), PStr [0xA0],
          PStr (ustr '' # old''), PStr (ustr ''robot''), PStr []])
       = Inr [ustr ''robot'', ustr ''robot'']"
    by (simp add: filter_keywords_def strip_def is_space_def startswith_def)
  from a b c d e f g show ?thesis by blast
qed

section \<open>Properties of the Config Merger\<close>

lemma merge_key_same: "map_of dest key = Some v \<Longrightarrow> merge_node v v = v \<Longrightarrow> merge_key dest key v = dest"
  by (induction dest) (auto split: if_splits)

lemma merge_items_same:
  "(\<forall>kv \<in> set src. map_of dest (fst kv) = Some (snd kv) \<and> merge_node (snd kv) (snd kv) = snd kv)
    \<Longrightarrow> merge_items dest src = dest"
  by (induction src) (auto simp: merge_key_same)

lemma merge_node_same: "wf_cfg c \<Longrightarrow> merge_node c c = c"
proof (induction c)
  case (PDict kvs)
  have "\<forall>kv \<in> set kvs. map_of kvs (fst kv) = Some (snd kv) \<and> merge_node (snd kv) (snd kv) = snd kv"
  proof
    fix kv assume kv: "kv \<in> set kvs"
    obtain k v where e: "kv = (k, v)" by (cases kv)
    have "map_of kvs k = Some v" using kv e PDict.prems by simp
    moreover have "merge_node v v = v"
      using PDict.IH [of kv v] kv e PDict.prems by auto
    ultimately show "map_of kvs (fst kv) = Some (snd kv) \<and> merge_node (snd kv) (snd kv) = snd kv"
      using e by simp
  qed
  then show ?case by (simp add: merge_items_same)
qed simp_all

lemma map_of_merge_key:
  "map_of (merge_key dest key src) k =
     (if k = key then Some (case map_of dest key of None \<Rightarrow> src | Some v \<Rightarrow> merge_node v src)
      else map_of dest k)"
  by (induction dest) auto

lemma map_of_merge_items:
  "distinct (map fst src) \<Longrightarrow>
   map_of (merge_items dest src) k =
     (case map_of src k of
        None \<Rightarrow> map_of dest k
      | Some s \<Rightarrow> Some (case map_of dest k of None \<Rightarrow> s | Some v \<Rightarrow> merge_node v s))"
proof (induction src arbitrary: dest)
  case Nil
  then show ?case by simp
next
  case (Cons a src)
  obtain key s where a: "a = (key, s)" by (cases a)
  have n: "map_of src key = None" using Cons.prems a by (simp add: map_of_eq_None_iff)
  show ?case using Cons.prems a n
    by (simp add: Cons.IH map_of_merge_key split: option.splits)
qed

lemma leaf_wins:
  "wf_cfg src \<Longrightarrow> lookup_path src p = Some v \<Longrightarrow> \<not> is_mapping v
     \<Longrightarrow> lookup_path (merge_node dest src) p = Some v"
proof (induction p arbitrary: dest src)
  case Nil
  then show ?case by (cases dest; cases src) auto
next
  case (Cons k p)
  then obtain skvs where s: "src = PDict skvs" by (cases src) auto
  then obtain sv where sv: "map_of skvs k = Some sv" "lookup_path sv p = Some v"
    using Cons.prems by (auto split: option.splits)
  have wfsv: "wf_cfg sv" using Cons.prems(1) s sv(1) by (auto dest!: map_of_SomeD)
  have d: "distinct (map fst skvs)" using Cons.prems(1) s by simp
  show ?case
  proof (cases dest)
    case (PDict dkvs)
    show ?thesis
    proof (cases "map_of dkvs k")
      case None
      then show ?thesis using s PDict sv d by (simp add: map_of_merge_items)
    next
      case (Some dv)
      have "lookup_path (merge_node dv sv) p = Some v"
        using Cons.IH [OF wfsv sv(2) Cons.prems(3)] .
      then show ?thesis using s PDict sv d Some by (simp add: map_of_merge_items)
    qed
  qed (use s sv in auto)
qed


lemma getattr_hasattr: "getattr c key = Inr v \<Longrightarrow> hasattr c key"
  by (cases c) (auto split: option.splits)

lemma getattr_setitem:
  "setitem m key v = Inr m' \<Longrightarrow> getattr m' k = (if k = key then Inr v else getattr m k)"
  by (cases m) (auto simp: update_conv')

lemma OmegaConf_merge_wins:
  "OmegaConf_merge dest src = Inr r \<Longrightarrow> wf_cfg src \<Longrightarrow> lookup_path src p = Some v
     \<Longrightarrow> \<not> is_mapping v \<Longrightarrow> lookup_path r p = Some v"
  by (cases dest; cases src) (auto simp: leaf_wins simp del: merge_node.simps)

lemma exn_bind_Inr: "exn_bind m f = Inr r \<Longrightarrow> \<exists>x. m = Inr x \<and> f x = Inr r"
  by (cases m) auto

lemma remap_section_other:
  "remap_section m kw ck gk = Inr m' \<Longrightarrow> gk \<noteq> g \<Longrightarrow> getattr m' g = getattr m g"
  unfolding remap_section_def
  by (auto split: if_splits dest!: exn_bind_Inr simp: getattr_setitem)

lemma remap_loop_other:
  "remap_loop m kw ms = Inr m' \<Longrightarrow> g \<notin> snd ` set ms \<Longrightarrow> getattr m' g = getattr m g"
proof (induction ms arbitrary: m)
  case Nil
  then show ?case by simp
next
  case (Cons a ms)
  obtain ck gk where a: "a = (ck, gk)" by (cases a)
  from Cons.prems(1) a obtain m1 where
    m1: "remap_section m kw ck gk = Inr m1" "remap_loop m1 kw ms = Inr m'"
    by (auto dest!: exn_bind_Inr)
  have "getattr m1 g = getattr m g" using remap_section_other [OF m1(1)] Cons.prems(2) a by auto
  moreover have "getattr m' g = getattr m1 g" using Cons.IH [OF m1(2)] Cons.prems(2) by auto
  ultimately show ?case by simp
qed

lemma remap_section_wins:
  assumes "remap_section m kw ck gk = Inr m'" "getattr kw ck = Inr legacy" "wf_cfg legacy"
    "lookup_path legacy p = Some v" "\<not> is_mapping v"
  shows "\<exists>sec. getattr m' gk = Inr sec \<and> lookup_path sec p = Some v"
proof -
  have h: "hasattr kw ck" using assms(2) by (rule getattr_hasattr)
  from assms(1) h obtain m1 dest r where
    r: "OmegaConf_merge dest legacy = Inr r" "setitem m1 gk r = Inr m'"
    unfolding remap_section_def using assms(2)
    by (auto dest!: exn_bind_Inr split: if_splits)
  have "lookup_path r p = Some v" using OmegaConf_merge_wins [OF r(1) assms(3,4,5)] .
  moreover have "getattr m' gk = Inr r" using getattr_setitem [OF r(2), of gk] by simp
  ultimately show ?thesis by blast
qed

lemma remap_loop_wins:
  assumes "getattr kw ck = Inr legacy" "wf_cfg legacy"
    "lookup_path legacy p = Some v" "\<not> is_mapping v"
  shows "remap_loop m kw ms = Inr m' \<Longrightarrow> (ck, gk) \<in> set ms \<Longrightarrow> distinct (map snd ms)
     \<Longrightarrow> \<exists>sec. getattr m' gk = Inr sec \<and> lookup_path sec p = Some v"
proof (induction ms arbitrary: m)
  case Nil
  then show ?case by simp
next
  case (Cons a ms)
  obtain ck' gk' where a: "a = (ck', gk')" by (cases a)
  from Cons.prems(1) a obtain m1 where
    m1: "remap_section m kw ck' gk' = Inr m1" "remap_loop m1 kw ms = Inr m'"
    by (auto dest!: exn_bind_Inr)
  show ?case
  proof (cases "(ck, gk) = a")
    case True
    then have e: "ck' = ck" "gk' = gk" using a by auto
    have "\<exists>sec. getattr m1 gk = Inr sec \<and> lookup_path sec p = Some v"
      using remap_section_wins [OF m1(1) [unfolded e] assms] .
    moreover have "gk \<notin> snd ` set ms" using Cons.prems(3) a e by auto
    then have "getattr m' gk = getattr m1 gk" by (rule remap_loop_other [OF m1(2)])
    ultimately show ?thesis by simp
  next
    case False
    then have "(ck, gk) \<in> set ms" using Cons.prems(2) by auto
    moreover have "distinct (map snd ms)" using Cons.prems(3) by simp
    ultimately show ?thesis using Cons.IH [OF m1(2)] by blast
  qed
qed

lemma override_search_wins:
  assumes "override_search m kw = Inr m'" "getattr kw (ustr ''search_config'') = Inr legacy" "wf_cfg legacy"
    "lookup_path legacy p = Some v" "\<not> is_mapping v"
  shows "\<exists>sec. getattr m' (ustr ''search'') = Inr sec \<and> lookup_path sec p = Some v"
proof -
  have h: "hasattr kw (ustr ''search_config'')" using assms(2) by (rule getattr_hasattr)
  from assms(1) h obtain dest r where
    r: "OmegaConf_merge dest legacy = Inr r" "setitem m (ustr ''search'') r = Inr m'"
    unfolding override_search_def using assms(2)
    by (auto dest!: exn_bind_Inr split: if_splits)
  have "lookup_path r p = Some v" using OmegaConf_merge_wins [OF r(1) assms(3,4,5)] .
  moreover have "getattr m' (ustr ''search'') = Inr r" using getattr_setitem [OF r(2), of "(ustr ''search'')"] by simp
  ultimately show ?thesis by blast
qed

text \<open>
  C5. Let the override document have the legacy section \<open>config_key\<close>, one of
  \<^verbatim>\<open>search_config\<close>, \<^verbatim>\<open>intelligent_matching_config\<close>, \<^verbatim>\<open>download_config\<close>,
  \<^verbatim>\<open>display_config\<close>, \<^verbatim>\<open>output_config\<close>, and let \<open>global_key\<close> be its canonical section.
  Whatever the base document and whatever the override's own canonical section, when
  \<^verbatim>\<open>merge_configs\<close> returns a result, every field of the legacy section (a value that is
  not itself a mapping, at any path \<open>p\<close> of keys inside the section) has the legacy
  section's value at the same path of the canonical section of the result. Mappings inside
  the section are merged key by key, so the statement is about their fields.
\<close>

theorem legacy_section_wins:
  assumes "merge_configs global_cfg keyword_cfg = Inr merged_cfg"
    and "(config_key, global_key) \<in> set legacy_sections"
    and "getattr keyword_cfg config_key = Inr legacy"
    and "wf_cfg legacy"
    and "lookup_path legacy p = Some v"
    and "\<not> is_mapping v"
  shows "\<exists>sec. getattr merged_cfg global_key = Inr sec \<and> lookup_path sec p = Some v"
proof -
  from assms(1) obtain m0 m1 where
    m: "override_search m0 keyword_cfg = Inr m1" "remap_loop m1 keyword_cfg config_mappings = Inr merged_cfg"
    unfolding merge_configs_def by (auto dest!: exn_bind_Inr)
  show ?thesis
  proof (cases "(config_key, global_key) = ((ustr ''search_config''), (ustr ''search''))")
    case True
    then have e: "config_key = (ustr ''search_config'')" "global_key = (ustr ''search'')" by auto
    have "\<exists>sec. getattr m1 (ustr ''search'') = Inr sec \<and> lookup_path sec p = Some v"
      using override_search_wins [OF m(1) assms(3) [unfolded e] assms(4,5,6)] .
    moreover have "(ustr ''search'') \<notin> snd ` set config_mappings" by (simp add: config_mappings_def)
    then have "getattr merged_cfg (ustr ''search'') = getattr m1 (ustr ''search'')" by (rule remap_loop_other [OF m(2)])
    ultimately show ?thesis using e by simp
  next
    case False
    then have "(config_key, global_key) \<in> set config_mappings"
      using assms(2) by (auto simp: legacy_sections_def)
    moreover have "distinct (map snd config_mappings)" by (simp add: config_mappings_def)
    ultimately show ?thesis
      using remap_loop_wins [OF assms(3,4,5,6) m(2)] by blast
  qed
qed

lemma OmegaConf_merge_same: "wf_cfg (PDict kvs) \<Longrightarrow> OmegaConf_merge (PDict kvs) (PDict kvs) = Inr (PDict kvs)"
  using merge_node_same [of "PDict kvs"] by (simp del: merge_node.simps wf_cfg.simps)

lemma hasattr_getattr: "hasattr c key \<longleftrightarrow> (\<exists>v. getattr c key = Inr v)"
  by (cases c) (auto split: option.splits)

lemma setitem_same: "getattr c key = Inr v \<Longrightarrow> setitem c key v = Inr c"
  by (cases c) (auto simp: update_triv split: option.splits)

lemma override_search_other:
  "override_search m kw = Inr m' \<Longrightarrow> g \<noteq> ustr ''search'' \<Longrightarrow> getattr m' g = getattr m g"
  unfolding override_search_def
  by (auto split: if_splits dest!: exn_bind_Inr simp: getattr_setitem)

lemma override_search_effect:
  assumes "override_search m kw = Inr m'" "getattr kw (ustr ''search_config'') = Inr src"
  shows "\<exists>dest r. getattr m (ustr ''search'') = Inr dest \<and> OmegaConf_merge dest src = Inr r
           \<and> getattr m' (ustr ''search'') = Inr r"
proof -
  have h: "hasattr kw (ustr ''search_config'')" using assms(2) by (rule getattr_hasattr)
  from assms(1) h obtain dest r where
    r: "getattr m (ustr ''search'') = Inr dest" "OmegaConf_merge dest src = Inr r"
       "setitem m (ustr ''search'') r = Inr m'"
    unfolding override_search_def using assms(2)
    by (auto dest!: exn_bind_Inr split: if_splits)
  have "getattr m' (ustr ''search'') = Inr r"
    using getattr_setitem [OF r(3), of "ustr ''search''"] by simp
  with r show ?thesis by blast
qed

lemma remap_section_effect:
  assumes "remap_section m kw ck gk = Inr m'" "getattr kw ck = Inr src"
  shows "\<exists>dest r. (getattr m gk = Inr dest \<or> (\<not> hasattr m gk \<and> dest = PDict []))
           \<and> OmegaConf_merge dest src = Inr r \<and> getattr m' gk = Inr r"
proof -
  have h: "hasattr kw ck" using assms(2) by (rule getattr_hasattr)
  show ?thesis
  proof (cases "hasattr m gk")
    case True
    from assms(1) h True obtain dest r where
      r: "getattr m gk = Inr dest" "OmegaConf_merge dest src = Inr r" "setitem m gk r = Inr m'"
      unfolding remap_section_def using assms(2)
      by (auto dest!: exn_bind_Inr split: if_splits)
    have "getattr m' gk = Inr r" using getattr_setitem [OF r(3), of gk] by simp
    with r show ?thesis by blast
  next
    case False
    from assms(1) h False obtain m1 dest r where
      r: "setitem m gk (PDict []) = Inr m1" "getattr m1 gk = Inr dest"
         "OmegaConf_merge dest src = Inr r" "setitem m1 gk r = Inr m'"
      unfolding remap_section_def using assms(2)
      by (auto dest!: exn_bind_Inr split: if_splits)
    have "dest = PDict []" using getattr_setitem [OF r(1), of gk] r(2) by simp
    moreover have "getattr m' gk = Inr r" using getattr_setitem [OF r(4), of gk] by simp
    ultimately show ?thesis using False r(3) by blast
  qed
qed

lemma remap_loop_effect:
  assumes "getattr kw ck = Inr src"
  shows "remap_loop m kw ms = Inr m' \<Longrightarrow> (ck, gk) \<in> set ms \<Longrightarrow> distinct (map snd ms)
     \<Longrightarrow> \<exists>dest r. (getattr m gk = Inr dest \<or> (\<not> hasattr m gk \<and> dest = PDict []))
           \<and> OmegaConf_merge dest src = Inr r \<and> getattr m' gk = Inr r"
proof (induction ms arbitrary: m)
  case Nil
  then show ?case by simp
next
  case (Cons a ms)
  obtain ck' gk' where a: "a = (ck', gk')" by (cases a)
  from Cons.prems(1) a obtain m1 where
    m1: "remap_section m kw ck' gk' = Inr m1" "remap_loop m1 kw ms = Inr m'"
    by (auto dest!: exn_bind_Inr)
  show ?case
  proof (cases "(ck, gk) = a")
    case True
    then have e: "ck' = ck" "gk' = gk" using a by auto
    from remap_section_effect [OF m1(1) [unfolded e] assms] obtain dest r where
      d: "getattr m gk = Inr dest \<or> (\<not> hasattr m gk \<and> dest = PDict [])"
         "OmegaConf_merge dest src = Inr r" "getattr m1 gk = Inr r" by blast
    have "gk \<notin> snd ` set ms" using Cons.prems(3) a e by auto
    then have "getattr m' gk = getattr m1 gk" by (rule remap_loop_other [OF m1(2)])
    with d show ?thesis by auto
  next
    case False
    then have in_ms: "(ck, gk) \<in> set ms" using Cons.prems(2) by auto
    have dist: "distinct (map snd ms)" using Cons.prems(3) by simp
    from Cons.IH [OF m1(2) in_ms dist] obtain dest r where
      d: "getattr m1 gk = Inr dest \<or> (\<not> hasattr m1 gk \<and> dest = PDict [])"
         "OmegaConf_merge dest src = Inr r" "getattr m' gk = Inr r" by blast
    have "gk' \<noteq> gk" using Cons.prems(3) a in_ms by (auto simp: image_iff)
    then have "getattr m1 gk = getattr m gk" by (rule remap_section_other [OF m1(1)])
    then have "hasattr m1 gk = hasattr m gk" by (simp add: hasattr_getattr)
    with d \<open>getattr m1 gk = getattr m gk\<close> show ?thesis by auto
  qed
qed

lemma remap_section_absorbed:
  assumes "absorbed c ck gk"
  shows "remap_section c c ck gk = Inr c"
proof (cases "getattr c ck")
  case (Inl e)
  then have "\<not> hasattr c ck" by (simp add: hasattr_getattr)
  then show ?thesis by (simp add: remap_section_def)
next
  case (Inr src)
  with assms obtain dest where d: "getattr c gk = Inr dest" "OmegaConf_merge dest src = Inr dest"
    by (auto simp: absorbed_def split: sum.splits)
  have "hasattr c ck" "hasattr c gk" using Inr d(1) by (auto simp: hasattr_getattr)
  then show ?thesis using Inr d by (simp add: remap_section_def setitem_same)
qed

lemma override_search_absorbed:
  assumes "absorbed c (ustr ''search_config'') (ustr ''search'')"
  shows "override_search c c = Inr c"
proof (cases "getattr c (ustr ''search_config'')")
  case (Inl e)
  then have "\<not> hasattr c (ustr ''search_config'')" by (simp add: hasattr_getattr)
  then show ?thesis by (simp add: override_search_def)
next
  case (Inr src)
  with assms obtain dest where
    d: "getattr c (ustr ''search'') = Inr dest" "OmegaConf_merge dest src = Inr dest"
    by (auto simp: absorbed_def split: sum.splits)
  have "hasattr c (ustr ''search_config'')" using Inr by (auto simp: hasattr_getattr)
  then show ?thesis using Inr d by (simp add: override_search_def setitem_same)
qed

lemma remap_loop_absorbed:
  "list_all (\<lambda>(ck, gk). absorbed c ck gk) ms \<Longrightarrow> remap_loop c c ms = Inr c"
  by (induction ms) (auto simp: remap_section_absorbed)

text \<open>
  C2, as amended. For every configuration document \<open>c\<close> (a mapping, no key twice),
  \<^verbatim>\<open>merge_configs(c, c)\<close> returns \<open>c\<close> exactly when each of the five legacy sections that
  \<open>c\<close> has is absorbed by its canonical section: \<open>c\<close> has the canonical section too, and
  merging the legacy section into it leaves it as it is. So the merge is idempotent on
  every document without a legacy section and on every document whose canonical sections
  already carry the legacy values, and on no other document.
\<close>

theorem merge_configs_self_iff:
  assumes "wf_cfg c" and "is_mapping c"
  shows "merge_configs c c = Inr c
           \<longleftrightarrow> list_all (\<lambda>(config_key, global_key). absorbed c config_key global_key) legacy_sections"
proof
  obtain kvs where c: "c = PDict kvs" using assms(2) by (cases c) auto
  have m: "OmegaConf_merge c c = Inr c" using OmegaConf_merge_same assms(1) c by simp
  {
    assume a: "list_all (\<lambda>(config_key, global_key). absorbed c config_key global_key) legacy_sections"
    then have s: "override_search c c = Inr c"
      by (simp add: legacy_sections_def override_search_absorbed)
    from a have l: "remap_loop c c config_mappings = Inr c"
      by (simp add: legacy_sections_def remap_loop_absorbed)
    show "merge_configs c c = Inr c" by (simp add: merge_configs_def m s l)
  }
  {
    assume r: "merge_configs c c = Inr c"
    then obtain m1 where
      m1: "override_search c c = Inr m1" "remap_loop m1 c config_mappings = Inr c"
      unfolding merge_configs_def using m by (auto dest!: exn_bind_Inr)
    have "absorbed c ck gk" if in_l: "(ck, gk) \<in> set legacy_sections" for ck gk
    proof (cases "getattr c ck")
      case (Inl e)
      then show ?thesis by (simp add: absorbed_def)
    next
      case (Inr src)
      show ?thesis
      proof (cases "(ck, gk) = (ustr ''search_config'', ustr ''search'')")
        case True
        then have e: "ck = ustr ''search_config''" "gk = ustr ''search''" by auto
        from override_search_effect [OF m1(1) Inr [unfolded e]] obtain dest r where
          d: "getattr c (ustr ''search'') = Inr dest" "OmegaConf_merge dest src = Inr r"
             "getattr m1 (ustr ''search'') = Inr r" by blast
        have "ustr ''search'' \<notin> snd ` set config_mappings" by (simp add: config_mappings_def)
        then have "getattr c (ustr ''search'') = getattr m1 (ustr ''search'')"
          by (rule remap_loop_other [OF m1(2)])
        with d have "dest = r" by simp
        with d Inr e show ?thesis by (simp add: absorbed_def)
      next
        case False
        then have in_m: "(ck, gk) \<in> set config_mappings"
          using in_l by (auto simp: legacy_sections_def)
        have dist: "distinct (map snd config_mappings)" by (simp add: config_mappings_def)
        from remap_loop_effect [OF Inr m1(2) in_m dist] obtain dest r where
          d: "getattr m1 gk = Inr dest \<or> (\<not> hasattr m1 gk \<and> dest = PDict [])"
             "OmegaConf_merge dest src = Inr r" "getattr c gk = Inr r" by blast
        have "gk \<noteq> ustr ''search''" using in_m by (auto simp: config_mappings_def)
        then have g: "getattr m1 gk = getattr c gk" by (rule override_search_other [OF m1(1)])
        then have "hasattr m1 gk" using d(3) by (simp add: hasattr_getattr)
        with d g have "dest = r" by auto
        with d Inr show ?thesis by (simp add: absorbed_def)
      qed
    qed
    then show "list_all (\<lambda>(config_key, global_key). absorbed c config_key global_key) legacy_sections"
      by (auto simp: list_all_iff)
  }
qed

text \<open>
  C2, as stated, fails: a document with \<^verbatim>\<open>search: {days: 7}\<close> and
  \<^verbatim>\<open>search_config: {days: 3}\<close> merged against itself has \<^verbatim>\<open>search: {days: 3}\<close>.
\<close>

theorem merge_configs_self_counterexample: "merge_configs both_sections both_sections \<noteq> Inr both_sections"
  by (simp add: both_sections_def merge_configs_def override_search_def config_mappings_def remap_section_def)

theorem merge_configs_self_iff_witness:
  "wf_cfg agree_sections \<and> is_mapping agree_sections
   \<and> list_all (\<lambda>(config_key, global_key). absorbed agree_sections config_key global_key) legacy_sections
   \<and> hasattr agree_sections (ustr ''search_config'')
   \<and> merge_configs agree_sections agree_sections = Inr agree_sections
   \<and> wf_cfg both_sections \<and> is_mapping both_sections
   \<and> \<not> absorbed both_sections (ustr ''search_config'') (ustr ''search'')"
proof -
  have a: "wf_cfg agree_sections" by (simp add: agree_sections_def)
  have b: "is_mapping agree_sections" by (simp add: agree_sections_def)
  have d: "list_all (\<lambda>(config_key, global_key). absorbed agree_sections config_key global_key)
             legacy_sections"
    by (simp add: agree_sections_def legacy_sections_def config_mappings_def absorbed_def)
  have h: "hasattr agree_sections (ustr ''search_config'')" by (simp add: agree_sections_def)
  have e: "wf_cfg both_sections" "is_mapping both_sections"
    "\<not> absorbed both_sections (ustr ''search_config'') (ustr ''search'')"
    by (simp_all add: both_sections_def absorbed_def)
  from merge_configs_self_iff [OF a b] a b d h e show ?thesis by simp
qed

theorem legacy_section_wins_witness:
  "merge_configs legacy_base legacy_override = Inr legacy_merged
   \<and> ((ustr ''intelligent_matching_config''), (ustr ''intelligent_matching'')) \<in> set legacy_sections
   \<and> getattr legacy_override (ustr ''intelligent_matching_config'')
        = Inr (PDict [((ustr ''score_weights''), PDict [((ustr ''base''), PInt 2)])])
   \<and> lookup_path (PDict [((ustr ''score_weights''), PDict [((ustr ''base''), PInt 2)])])
        [(ustr ''score_weights''), (ustr ''base'')] = Some (PInt 2)
   \<and> (\<exists>sec. getattr legacy_merged (ustr ''intelligent_matching'') = Inr sec
         \<and> lookup_path sec [(ustr ''score_weights''), (ustr ''base'')] = Some (PInt 2))"
proof -
  let ?legacy = "PDict [((ustr ''score_weights''), PDict [((ustr ''base''), PInt 2)])]"
  have a: "merge_configs legacy_base legacy_override = Inr legacy_merged"
    by (simp add: merge_configs_def legacy_base_def legacy_override_def legacy_merged_def
        override_search_def config_mappings_def remap_section_def)
  have b: "((ustr ''intelligent_matching_config''), (ustr ''intelligent_matching'')) \<in> set legacy_sections"
    by (simp add: legacy_sections_def config_mappings_def)
  have c: "getattr legacy_override (ustr ''intelligent_matching_config'') = Inr ?legacy"
    by (simp add: legacy_override_def)
  have d: "wf_cfg ?legacy" by simp
  have e: "lookup_path ?legacy [(ustr ''score_weights''), (ustr ''base'')] = Some (PInt 2)" by simp
  have f: "\<not> is_mapping (PInt 2)" by simp
  from legacy_section_wins [OF a b c d e f] a b c e show ?thesis by blast
qed


section \<open>Properties of the Profile Runner\<close>

lemma demo_merge: "merge_configs base_cfg demo_cfg = Inr demo_final_cfg"
  by (simp add: merge_configs_def base_cfg_def demo_cfg_def demo_final_cfg_def override_search_def
      config_mappings_def remap_section_def)

lemma demo_keywords:
  "load_keywords_from_config demo_final_cfg =
     Inr ([(ustr ''robot arm'')], [], PList [PStr (ustr ''# area''), PStr (ustr '' robot arm '')], PDict [])"
  by (simp add: load_keywords_from_config_def demo_final_cfg_def filter_keywords_def strip_def
      is_space_def startswith_def)

lemma demo_prepare: "prepare (demo_world outcome) (ustr ''sync_robotics'') = Inr (Ranked demo_final_cfg [10, 20])"
proof -
  have p: "path_join (ustr ''conf'') ((ustr ''sync_robotics'') @ (ustr ''.yaml'')) = (ustr ''conf/sync_robotics.yaml'')"
    by (simp add: path_join_def startswith_def)
  have l: "load_final_cfg (demo_world outcome) (ustr ''conf/sync_robotics.yaml'') = Inr demo_final_cfg"
    using demo_merge by (simp add: load_final_cfg_def demo_world_def demo_cfg_def)
  have f: "fetch_papers (demo_world outcome) (ustr ''sync_robotics'') demo_final_cfg
             (PDict [((ustr ''days''), PInt 3), ((ustr ''max_results''), PInt 300), ((ustr ''max_display''), PInt 10),
                ((ustr ''min_score''), PFloat (1 / 10)), ((ustr ''field''), PStr (ustr ''all''))]) = Inr (Inr [10, 20, 30])"
    by (simp add: fetch_papers_def demo_world_def)
  have s: "py_get demo_final_cfg (ustr ''search'') (PDict []) =
             Inr (PDict [((ustr ''days''), PInt 3), ((ustr ''max_results''), PInt 300), ((ustr ''max_display''), PInt 10),
                ((ustr ''min_score''), PFloat (1 / 10)), ((ustr ''field''), PStr (ustr ''all''))])"
    by (simp add: demo_final_cfg_def)
  have d: "py_get demo_final_cfg (ustr ''download'') (PDict []) =
             Inr (PDict [((ustr ''enabled''), PBool False), ((ustr ''max_downloads''), PInt 10),
         ((ustr ''download_dir''), PStr (ustr ''downloads''))])"
    by (simp add: demo_final_cfg_def)
  have i: "py_get demo_final_cfg (ustr ''intelligent_matching'') (PDict []) =
             Inr (PDict [((ustr ''enabled''), PBool False),
         ((ustr ''score_weights''), PDict [((ustr ''base''), PFloat 1), ((ustr ''semantic''), PFloat (3 / 10))])])"
    by (simp add: demo_final_cfg_def)
  have r: "rank_papers (demo_world outcome) demo_final_cfg
             (PDict [((ustr ''days''), PInt 3), ((ustr ''max_results''), PInt 300), ((ustr ''max_display''), PInt 10),
                ((ustr ''min_score''), PFloat (1 / 10)), ((ustr ''field''), PStr (ustr ''all''))]) [10, 20, 30]
             [(ustr ''robot arm'')] [] (PList [PStr (ustr ''# area''), PStr (ustr '' robot arm '')]) (PDict []) = Inr [10, 20]"
    using i by (simp add: rank_papers_def demo_world_def)
  have e: "path_exists (demo_world outcome) (ustr ''conf/sync_robotics.yaml'')"
    by (simp add: demo_world_def)
  have a: "ArxivAPI (demo_world outcome) (PStr (ustr ''downloads'')) = Inr ()"
    by (simp add: demo_world_def)
  have k: "PaperRanker (demo_world outcome) = Inr ()"
    by (simp add: demo_world_def)
  show ?thesis
    unfolding prepare_def Let_def
    using p e l d a k s f r demo_keywords by simp
qed

lemma demo_labels:
  "research_area_of demo_final_cfg (ustr ''sync_robotics'') = Inr (PStr (ustr ''robotics''))"
  "table_name_of demo_final_cfg True = Inr ((ustr ''Robotics'') @ paper_table)"
  by (simp_all add: research_area_of_def table_name_of_def demo_final_cfg_def researcher_def
      replace.simps startswith_def strip_def is_space_def)

lemma reach_sync:
  assumes "prepare w name = Inr (Ranked final_cfg ranked)" "ranked \<noteq> []" "FEISHU_AVAILABLE w"
  shows "run_pipeline w st name =
     (exn_bind (fst (sync_step w ranked final_cfg st)) (\<lambda>synced_count.
        make_result final_cfg name True None (max synced_count 0) (int (length ranked)) True
          (take 1 ranked)),
      snd (sync_step w ranked final_cfg st))"
  using assms by (simp add: run_pipeline_def Let_def)

lemma result_after_sync:
  assumes "prepare w name = Inr (Ranked final_cfg ranked)"
    and "ranked \<noteq> []"
    and "FEISHU_AVAILABLE w"
    and "fst (sync_papers_to_feishu w ranked final_cfg ((environ st)((ustr ''BATCH_MODE'') \<mapsto> (ustr ''1''))))
           = Inr sync_result"
    and "research_area_of final_cfg name = Inr area"
    and "table_name_of final_cfg True = Inr tbl"
  shows "fst (process_single_config w st name) =
           Inr \<lparr>config_name = name, success = True, error = None,
                new_papers = max (synced_count_of sync_result) 0,
                total_papers = int (length ranked), research_area = area, table_name = tbl,
                ranked_papers = take 1 ranked\<rparr>"
proof -
  let ?st = "st\<lparr>trace := trace st @ [RunnerCall name]\<rparr>"
  have "fst (sync_step w ranked final_cfg ?st) = Inr (synced_count_of sync_result)"
    using assms(4) by (simp add: sync_step_def Let_def)
  then have "fst (run_pipeline w ?st name) =
      Inr \<lparr>config_name = name, success = True, error = None,
                new_papers = max (synced_count_of sync_result) 0,
                total_papers = int (length ranked), research_area = area, table_name = tbl,
                ranked_papers = take 1 ranked\<rparr>"
    by (simp add: reach_sync [OF assms(1,2,3)] make_result_def assms(5,6))
  then show ?thesis by (simp add: process_single_config_def Let_def)
qed

lemma py_get_no_BaseExc: "py_get v key dflt \<noteq> Inl (BaseExc e)"
  by (cases v) simp_all

lemma str_replace_no_BaseExc: "str_replace v old new \<noteq> Inl (BaseExc e)"
  by (cases v) simp_all

lemma exn_bind_BaseExc:
  "exn_bind m f = Inl (BaseExc e) \<Longrightarrow> m = Inl (BaseExc e) \<or> (\<exists>x. m = Inr x \<and> f x = Inl (BaseExc e))"
  by (cases m) auto

lemma make_result_no_BaseExc:
  "make_result final_cfg name ok err n_new n_total stripped ranked \<noteq> Inl (BaseExc e)"
  by (auto simp: make_result_def research_area_of_def table_name_of_def
      py_get_no_BaseExc str_replace_no_BaseExc dest!: exn_bind_BaseExc)

text \<open>
  C3, as amended. Take a run of the Runner that reaches the sync step: the pipeline
  produced ranked papers, the list is not empty and the sync module is available. If the
  sync call raises an \<^verbatim>\<open>Exception\<close>, \<^verbatim>\<open>process_single_config\<close> returns a result (nothing is
  raised past it); and whenever the two label expressions of the return statement have
  values \<open>area\<close> and \<open>tbl\<close> on the effective configuration, that result has
  \<^verbatim>\<open>success = True\<close> and \<^verbatim>\<open>new_papers = 0\<close>, the number of ranked papers as total and the
  first ranked paper.
\<close>

theorem sync_exception_downgraded:
  assumes "prepare w name = Inr (Ranked final_cfg ranked)"
    and "ranked \<noteq> []"
    and "FEISHU_AVAILABLE w"
    and "fst (sync_papers_to_feishu w ranked final_cfg ((environ st)((ustr ''BATCH_MODE'') \<mapsto> (ustr ''1''))))
           = Inl (Exc sync_error)"
  shows "\<exists>r. fst (process_single_config w st name) = Inr r
           \<and> (\<forall>area tbl. research_area_of final_cfg name = Inr area
                 \<longrightarrow> table_name_of final_cfg True = Inr tbl
                 \<longrightarrow> r = \<lparr>config_name = name, success = True, error = None, new_papers = 0,
                        total_papers = int (length ranked), research_area = area,
                        table_name = tbl, ranked_papers = take 1 ranked\<rparr>)"
proof -
  let ?st = "st\<lparr>trace := trace st @ [RunnerCall name]\<rparr>"
  let ?made = "make_result final_cfg name True None 0 (int (length ranked)) True (take 1 ranked)"
  have "fst (sync_step w ranked final_cfg ?st) = Inr 0"
    using assms(4) by (simp add: sync_step_def Let_def)
  then have run: "fst (run_pipeline w ?st name) = ?made"
    by (simp add: reach_sync [OF assms(1,2,3)])
  show ?thesis
  proof (cases ?made)
    case (Inl e)
    then obtain msg where "e = Exc msg"
      using make_result_no_BaseExc [of final_cfg name True None 0 "int (length ranked)" True "take 1 ranked"]
      by (cases e) auto
    with Inl run have "fst (process_single_config w st name) =
        Inr \<lparr>config_name = name, success = False, error = Some msg, new_papers = 0,
                total_papers = 0, research_area = PStr (replace name (ustr ''sync_'') []),
                table_name = replace name (ustr ''sync_'') [] @ paper_table, ranked_papers = []\<rparr>"
      by (simp add: process_single_config_def Let_def)
    moreover have "\<not> (\<exists>area tbl. research_area_of final_cfg name = Inr area
        \<and> table_name_of final_cfg True = Inr tbl)"
      using Inl by (auto simp: make_result_def)
    ultimately show ?thesis by blast
  next
    case (Inr r)
    with run have "fst (process_single_config w st name) = Inr r"
      by (simp add: process_single_config_def Let_def)
    moreover have "\<forall>area tbl. research_area_of final_cfg name = Inr area
                 \<longrightarrow> table_name_of final_cfg True = Inr tbl
                 \<longrightarrow> r = \<lparr>config_name = name, success = True, error = None, new_papers = 0,
                        total_papers = int (length ranked), research_area = area,
                        table_name = tbl, ranked_papers = take 1 ranked\<rparr>"
      using Inr by (auto simp: make_result_def)
    ultimately show ?thesis by blast
  qed
qed

theorem sync_exception_downgraded_witness:
  "prepare (demo_world (Inl (Exc (ustr ''timeout'')))) (ustr ''sync_robotics'') = Inr (Ranked demo_final_cfg [10, 20])
   \<and> FEISHU_AVAILABLE (demo_world (Inl (Exc (ustr ''timeout''))))
   \<and> fst (sync_papers_to_feishu (demo_world (Inl (Exc (ustr ''timeout'')))) [10, 20] demo_final_cfg
            ((environ st0)((ustr ''BATCH_MODE'') \<mapsto> (ustr ''1'')))) = Inl (Exc (ustr ''timeout''))
   \<and> research_area_of demo_final_cfg (ustr ''sync_robotics'') = Inr (PStr (ustr ''robotics''))
   \<and> table_name_of demo_final_cfg True = Inr ((ustr ''Robotics'') @ paper_table)
   \<and> fst (process_single_config (demo_world (Inl (Exc (ustr ''timeout'')))) st0 (ustr ''sync_robotics'')) =
           Inr \<lparr>config_name = (ustr ''sync_robotics''), success = True, error = None, new_papers = 0,
                total_papers = 2, research_area = PStr (ustr ''robotics''),
                table_name = (ustr ''Robotics'') @ paper_table, ranked_papers = [10]\<rparr>"
proof -
  let ?w = "demo_world (Inl (Exc (ustr ''timeout'')))"
  have a: "prepare ?w (ustr ''sync_robotics'') = Inr (Ranked demo_final_cfg [10, 20])" by (rule demo_prepare)
  have b: "[10, 20] \<noteq> ([] :: nat list)" by simp
  have c: "FEISHU_AVAILABLE ?w" by (simp add: demo_world_def)
  have d: "fst (sync_papers_to_feishu ?w [10, 20] demo_final_cfg
            ((environ st0)((ustr ''BATCH_MODE'') \<mapsto> (ustr ''1'')))) = Inl (Exc (ustr ''timeout''))"
    by (simp add: demo_world_def)
  from sync_exception_downgraded [OF a b c d] obtain r where
    r: "fst (process_single_config ?w st0 (ustr ''sync_robotics'')) = Inr r"
    and l: "\<forall>area tbl. research_area_of demo_final_cfg (ustr ''sync_robotics'') = Inr area
                 \<longrightarrow> table_name_of demo_final_cfg True = Inr tbl
                 \<longrightarrow> r = \<lparr>config_name = (ustr ''sync_robotics''), success = True, error = None,
                        new_papers = 0, total_papers = int (length [10::nat, 20]),
                        research_area = area, table_name = tbl,
                        ranked_papers = take 1 [10, 20]\<rparr>"
    by blast
  from l demo_labels have "r = \<lparr>config_name = (ustr ''sync_robotics''), success = True, error = None,
                        new_papers = 0, total_papers = int (length [10::nat, 20]),
                        research_area = PStr (ustr ''robotics''), table_name = (ustr ''Robotics'') @ paper_table,
                        ranked_papers = take 1 [10, 20]\<rparr>" by blast
  with r a c d demo_labels show ?thesis by simp
qed

text \<open>
  C10, as amended. In a run that reaches the sync step and in which the two label
  expressions of the return statement have values, if the sync call returns the boolean
  \<^verbatim>\<open>True\<close>, the result has \<^verbatim>\<open>success = True\<close> and \<^verbatim>\<open>new_papers = 1\<close>: \<^verbatim>\<open>True\<close> passes the
  test \<^verbatim>\<open>isinstance(sync_result, int)\<close>, so the count taken from it is 1 and the branch
  \<^verbatim>\<open>elif sync_result is True\<close>, which would give 0, is never reached.
\<close>

theorem sync_true_counts_one:
  assumes "prepare w name = Inr (Ranked final_cfg ranked)"
    and "ranked \<noteq> []"
    and "FEISHU_AVAILABLE w"
    and "fst (sync_papers_to_feishu w ranked final_cfg ((environ st)((ustr ''BATCH_MODE'') \<mapsto> (ustr ''1''))))
           = Inr (PBool True)"
    and "research_area_of final_cfg name = Inr area"
    and "table_name_of final_cfg True = Inr tbl"
  shows "isinstance_int (PBool True) \<and> synced_count_of (PBool True) = 1
         \<and> fst (process_single_config w st name) =
           Inr \<lparr>config_name = name, success = True, error = None, new_papers = 1,
                total_papers = int (length ranked), research_area = area, table_name = tbl,
                ranked_papers = take 1 ranked\<rparr>"
proof -
  let ?st = "st\<lparr>trace := trace st @ [RunnerCall name]\<rparr>"
  have s: "synced_count_of (PBool True) = 1" by (simp add: synced_count_of_def)
  have "fst (sync_step w ranked final_cfg ?st) = Inr 1"
    using assms(4) by (simp add: sync_step_def Let_def s)
  then have "fst (run_pipeline w ?st name) =
      Inr \<lparr>config_name = name, success = True, error = None, new_papers = 1,
                total_papers = int (length ranked), research_area = area, table_name = tbl,
                ranked_papers = take 1 ranked\<rparr>"
    by (simp add: reach_sync [OF assms(1,2,3)] make_result_def assms(5,6))
  then show ?thesis using s by (simp add: process_single_config_def Let_def)
qed

theorem sync_true_counts_one_witness:
  "prepare (demo_world (Inr (PBool True))) (ustr ''sync_robotics'') = Inr (Ranked demo_final_cfg [10, 20])
   \<and> FEISHU_AVAILABLE (demo_world (Inr (PBool True)))
   \<and> fst (sync_papers_to_feishu (demo_world (Inr (PBool True))) [10, 20] demo_final_cfg
            ((environ st0)((ustr ''BATCH_MODE'') \<mapsto> (ustr ''1'')))) = Inr (PBool True)
   \<and> fst (process_single_config (demo_world (Inr (PBool True))) st0 (ustr ''sync_robotics'')) =
           Inr \<lparr>config_name = (ustr ''sync_robotics''), success = True, error = None, new_papers = 1,
                total_papers = 2, research_area = PStr (ustr ''robotics''),
                table_name = (ustr ''Robotics'') @ paper_table, ranked_papers = [10]\<rparr>"
proof -
  let ?w = "demo_world (Inr (PBool True))"
  have a: "prepare ?w (ustr ''sync_robotics'') = Inr (Ranked demo_final_cfg [10, 20])" by (rule demo_prepare)
  have b: "[10, 20] \<noteq> ([] :: nat list)" by simp
  have c: "FEISHU_AVAILABLE ?w" by (simp add: demo_world_def)
  have d: "fst (sync_papers_to_feishu ?w [10, 20] demo_final_cfg
            ((environ st0)((ustr ''BATCH_MODE'') \<mapsto> (ustr ''1'')))) = Inr (PBool True)"
    by (simp add: demo_world_def)
  show ?thesis
    using a c d sync_true_counts_one [OF a b c d demo_labels] by simp
qed

lemma bad_name_merge: "merge_configs base_cfg bad_name_cfg = Inr bad_name_final_cfg"
  by (simp add: merge_configs_def base_cfg_def bad_name_cfg_def bad_name_final_cfg_def
      override_search_def config_mappings_def remap_section_def)

lemma bad_name_keywords:
  "load_keywords_from_config bad_name_final_cfg =
     Inr ([ustr ''robot''], [], PList [PStr (ustr ''robot'')], PDict [])"
  by (simp add: load_keywords_from_config_def bad_name_final_cfg_def filter_keywords_def strip_def
      is_space_def startswith_def)

lemma bad_name_prepare:
  "prepare (bad_name_world outcome) (ustr ''sync_robotics'') = Inr (Ranked bad_name_final_cfg [10, 20])"
proof -
  let ?search = "PDict [(ustr ''days'', PInt 7), (ustr ''max_results'', PInt 300),
         (ustr ''max_display'', PInt 10), (ustr ''min_score'', PFloat (1 / 10)),
         (ustr ''field'', PStr (ustr ''all''))]"
  have p: "path_join (ustr ''conf'') (ustr ''sync_robotics'' @ ustr ''.yaml'') = ustr ''conf/sync_robotics.yaml''"
    by (simp add: path_join_def startswith_def)
  have l: "load_final_cfg (bad_name_world outcome) (ustr ''conf/sync_robotics.yaml'') = Inr bad_name_final_cfg"
    using bad_name_merge by (simp add: load_final_cfg_def bad_name_world_def bad_name_cfg_def)
  have f: "fetch_papers (bad_name_world outcome) (ustr ''sync_robotics'') bad_name_final_cfg ?search
             = Inr (Inr [10, 20, 30])"
    by (simp add: fetch_papers_def bad_name_world_def demo_world_def)
  have s: "py_get bad_name_final_cfg (ustr ''search'') (PDict []) = Inr ?search"
    by (simp add: bad_name_final_cfg_def)
  have d: "py_get bad_name_final_cfg (ustr ''download'') (PDict []) =
             Inr (PDict [(ustr ''enabled'', PBool False), (ustr ''max_downloads'', PInt 10),
         (ustr ''download_dir'', PStr (ustr ''downloads''))])"
    by (simp add: bad_name_final_cfg_def)
  have i: "py_get bad_name_final_cfg (ustr ''intelligent_matching'') (PDict []) =
             Inr (PDict [(ustr ''enabled'', PBool False),
         (ustr ''score_weights'', PDict [(ustr ''base'', PFloat 1), (ustr ''semantic'', PFloat (3 / 10))])])"
    by (simp add: bad_name_final_cfg_def)
  have r: "rank_papers (bad_name_world outcome) bad_name_final_cfg ?search [10, 20, 30]
             [ustr ''robot''] [] (PList [PStr (ustr ''robot'')]) (PDict []) = Inr [10, 20]"
    using i by (simp add: rank_papers_def bad_name_world_def demo_world_def)
  have e: "path_exists (bad_name_world outcome) (ustr ''conf/sync_robotics.yaml'')"
    by (simp add: bad_name_world_def demo_world_def)
  have a: "ArxivAPI (bad_name_world outcome) (PStr (ustr ''downloads'')) = Inr ()"
    by (simp add: bad_name_world_def demo_world_def)
  have k: "PaperRanker (bad_name_world outcome) = Inr ()"
    by (simp add: bad_name_world_def demo_world_def)
  show ?thesis
    unfolding prepare_def Let_def
    using p e l d a k s f r bad_name_keywords by simp
qed

lemma bad_name_labels:
  "research_area_of bad_name_final_cfg (ustr ''sync_robotics'') = Inr (PStr (ustr ''robotics''))"
  "table_name_of bad_name_final_cfg True = Inl (Exc (ustr ''AttributeError''))"
  by (simp_all add: research_area_of_def table_name_of_def bad_name_final_cfg_def
      replace.simps startswith_def)

lemma bad_name_result:
  assumes "fst (sync_papers_to_feishu (bad_name_world outcome) [10, 20] bad_name_final_cfg
            ((environ st0)(ustr ''BATCH_MODE'' \<mapsto> ustr ''1''))) = Inl (Exc e)
         \<or> (\<exists>v. fst (sync_papers_to_feishu (bad_name_world outcome) [10, 20] bad_name_final_cfg
            ((environ st0)(ustr ''BATCH_MODE'' \<mapsto> ustr ''1''))) = Inr v)"
  shows "fst (process_single_config (bad_name_world outcome) st0 (ustr ''sync_robotics'')) =
           Inr \<lparr>config_name = ustr ''sync_robotics'', success = False,
                error = Some (ustr ''AttributeError''), new_papers = 0, total_papers = 0,
                research_area = PStr (ustr ''robotics''),
                table_name = ustr ''robotics'' @ paper_table, ranked_papers = []\<rparr>"
proof -
  let ?w = "bad_name_world outcome"
  let ?st = "st0\<lparr>trace := trace st0 @ [RunnerCall (ustr ''sync_robotics'')]\<rparr>"
  have a: "prepare ?w (ustr ''sync_robotics'') = Inr (Ranked bad_name_final_cfg [10, 20])"
    by (rule bad_name_prepare)
  have b: "[10, 20] \<noteq> ([] :: nat list)" by simp
  have c: "FEISHU_AVAILABLE ?w" by (simp add: bad_name_world_def demo_world_def)
  have "\<exists>n. fst (sync_step ?w [10, 20] bad_name_final_cfg ?st) = Inr n"
    using assms by (auto simp: sync_step_def Let_def)
  then obtain n where "fst (sync_step ?w [10, 20] bad_name_final_cfg ?st) = Inr n" by blast
  then have "fst (run_pipeline ?w ?st (ustr ''sync_robotics'')) = Inl (Exc (ustr ''AttributeError''))"
    using reach_sync [OF a b c, of ?st] bad_name_labels by (simp add: make_result_def)
  moreover have "replace (ustr ''sync_robotics'') (ustr ''sync_'') [] = ustr ''robotics''"
    by (simp add: replace.simps startswith_def)
  ultimately show ?thesis by (simp add: process_single_config_def Let_def)
qed

text \<open>
  C3, as stated, fails. The profile document has \<^verbatim>\<open>user_profile: {name: 123}\<close>; three
  papers are retrieved, two are ranked, and the sync call raises. The exception is caught
  and the count set to 0, but the return statement calls \<^verbatim>\<open>.replace\<close> on the number, the
  outer handler catches that error, and the result has \<^verbatim>\<open>success = False\<close>.
\<close>

theorem sync_exception_counterexample:
  "prepare (bad_name_world (Inl (Exc (ustr ''timeout'')))) (ustr ''sync_robotics'')
       = Inr (Ranked bad_name_final_cfg [10, 20])
   \<and> FEISHU_AVAILABLE (bad_name_world (Inl (Exc (ustr ''timeout''))))
   \<and> fst (sync_papers_to_feishu (bad_name_world (Inl (Exc (ustr ''timeout'')))) [10, 20]
            bad_name_final_cfg ((environ st0)(ustr ''BATCH_MODE'' \<mapsto> ustr ''1'')))
       = Inl (Exc (ustr ''timeout''))
   \<and> fst (process_single_config (bad_name_world (Inl (Exc (ustr ''timeout'')))) st0
            (ustr ''sync_robotics'')) =
           Inr \<lparr>config_name = ustr ''sync_robotics'', success = False,
                error = Some (ustr ''AttributeError''), new_papers = 0, total_papers = 0,
                research_area = PStr (ustr ''robotics''),
                table_name = ustr ''robotics'' @ paper_table, ranked_papers = []\<rparr>"
proof -
  let ?w = "bad_name_world (Inl (Exc (ustr ''timeout'')))"
  have a: "prepare ?w (ustr ''sync_robotics'') = Inr (Ranked bad_name_final_cfg [10, 20])"
    by (rule bad_name_prepare)
  have c: "FEISHU_AVAILABLE ?w" by (simp add: bad_name_world_def demo_world_def)
  have d: "fst (sync_papers_to_feishu ?w [10, 20] bad_name_final_cfg
            ((environ st0)(ustr ''BATCH_MODE'' \<mapsto> ustr ''1''))) = Inl (Exc (ustr ''timeout''))"
    by (simp add: bad_name_world_def demo_world_def)
  from d have "fst (sync_papers_to_feishu ?w [10, 20] bad_name_final_cfg
            ((environ st0)(ustr ''BATCH_MODE'' \<mapsto> ustr ''1''))) = Inl (Exc (ustr ''timeout''))
         \<or> (\<exists>v. fst (sync_papers_to_feishu ?w [10, 20] bad_name_final_cfg
            ((environ st0)(ustr ''BATCH_MODE'' \<mapsto> ustr ''1''))) = Inr v)" by (rule disjI1)
  from bad_name_result [OF this] a c d show ?thesis by blast
qed

text \<open>
  C10, as stated, fails on the same profile document: the sync call returns \<^verbatim>\<open>True\<close>, and
  the result has \<^verbatim>\<open>success = False\<close> and \<^verbatim>\<open>new_papers = 0\<close>.
\<close>

theorem sync_true_counterexample:
  "prepare (bad_name_world (Inr (PBool True))) (ustr ''sync_robotics'')
       = Inr (Ranked bad_name_final_cfg [10, 20])
   \<and> FEISHU_AVAILABLE (bad_name_world (Inr (PBool True)))
   \<and> fst (sync_papers_to_feishu (bad_name_world (Inr (PBool True))) [10, 20]
            bad_name_final_cfg ((environ st0)(ustr ''BATCH_MODE'' \<mapsto> ustr ''1'')))
       = Inr (PBool True)
   \<and> fst (process_single_config (bad_name_world (Inr (PBool True))) st0 (ustr ''sync_robotics'')) =
           Inr \<lparr>config_name = ustr ''sync_robotics'', success = False,
                error = Some (ustr ''AttributeError''), new_papers = 0, total_papers = 0,
                research_area = PStr (ustr ''robotics''),
                table_name = ustr ''robotics'' @ paper_table, ranked_papers = []\<rparr>"
proof -
  let ?w = "bad_name_world (Inr (PBool True))"
  have a: "prepare ?w (ustr ''sync_robotics'') = Inr (Ranked bad_name_final_cfg [10, 20])"
    by (rule bad_name_prepare)
  have c: "FEISHU_AVAILABLE ?w" by (simp add: bad_name_world_def demo_world_def)
  have d: "fst (sync_papers_to_feishu ?w [10, 20] bad_name_final_cfg
            ((environ st0)(ustr ''BATCH_MODE'' \<mapsto> ustr ''1''))) = Inr (PBool True)"
    by (simp add: bad_name_world_def demo_world_def)
  from d have "fst (sync_papers_to_feishu ?w [10, 20] bad_name_final_cfg
            ((environ st0)(ustr ''BATCH_MODE'' \<mapsto> ustr ''1''))) = Inl (Exc (ustr ''unused''))
         \<or> (\<exists>v. fst (sync_papers_to_feishu ?w [10, 20] bad_name_final_cfg
            ((environ st0)(ustr ''BATCH_MODE'' \<mapsto> ustr ''1''))) = Inr v)" by blast
  from bad_name_result [OF this] a c d show ?thesis by blast
qed

text \<open>
  C4. In every run that performs the sync step, whatever the sync call does (it returns a
  value, raises an \<^verbatim>\<open>Exception\<close>, which is caught, or raises another exception, which
  goes on), the Runner's effects are, in this order and nothing else: \<^verbatim>\<open>BATCH_MODE\<close> is set
  to \<^verbatim>\<open>1\<close>, the sync collaborator is called, \<^verbatim>\<open>BATCH_MODE\<close> is removed once; and
  \<^verbatim>\<open>BATCH_MODE\<close> is not set in the environment \<^verbatim>\<open>process_single_config\<close> leaves behind.
\<close>

theorem batch_mode_restored:
  assumes "prepare w name = Inr (Ranked final_cfg ranked)"
    and "ranked \<noteq> []"
    and "FEISHU_AVAILABLE w"
  shows "trace (snd (process_single_config w st name)) =
           trace st @ [RunnerCall name, SetEnv (ustr ''BATCH_MODE'') (ustr ''1''), SyncCall, PopEnv (ustr ''BATCH_MODE'')]
         \<and> environ (snd (process_single_config w st name)) (ustr ''BATCH_MODE'') = None"
proof -
  let ?st = "st\<lparr>trace := trace st @ [RunnerCall name]\<rparr>"
  have "snd (run_pipeline w ?st name) = snd (sync_step w ranked final_cfg ?st)"
    by (simp add: reach_sync [OF assms])
  moreover have "snd (process_single_config w st name) = snd (run_pipeline w ?st name)"
    by (simp add: process_single_config_def Let_def split: sum.splits exn.splits)
  ultimately show ?thesis by (simp add: sync_step_def Let_def)
qed

theorem batch_mode_restored_witness:
  "prepare (demo_world (Inl (BaseExc (ustr ''KeyboardInterrupt'')))) (ustr ''sync_robotics'')
       = Inr (Ranked demo_final_cfg [10, 20])
   \<and> FEISHU_AVAILABLE (demo_world (Inl (BaseExc (ustr ''KeyboardInterrupt''))))
   \<and> fst (process_single_config (demo_world (Inl (BaseExc (ustr ''KeyboardInterrupt'')))) st0 (ustr ''sync_robotics''))
       = Inl (BaseExc (ustr ''KeyboardInterrupt''))
   \<and> trace (snd (process_single_config (demo_world (Inl (BaseExc (ustr ''KeyboardInterrupt'')))) st0
         (ustr ''sync_robotics'')))
       = [RunnerCall (ustr ''sync_robotics''), SetEnv (ustr ''BATCH_MODE'') (ustr ''1''), SyncCall, PopEnv (ustr ''BATCH_MODE'')]
   \<and> environ (snd (process_single_config (demo_world (Inl (BaseExc (ustr ''KeyboardInterrupt'')))) st0
         (ustr ''sync_robotics''))) (ustr ''BATCH_MODE'') = None"
proof -
  let ?w = "demo_world (Inl (BaseExc (ustr ''KeyboardInterrupt'')))"
  have a: "prepare ?w (ustr ''sync_robotics'') = Inr (Ranked demo_final_cfg [10, 20])" by (rule demo_prepare)
  have b: "[10, 20] \<noteq> ([] :: nat list)" by simp
  have c: "FEISHU_AVAILABLE ?w" by (simp add: demo_world_def)
  have d: "fst (process_single_config ?w st0 (ustr ''sync_robotics'')) = Inl (BaseExc (ustr ''KeyboardInterrupt''))"
    using reach_sync [OF a b c]
    by (simp add: process_single_config_def Let_def sync_step_def demo_world_def)
  show ?thesis
    using a c d batch_mode_restored [OF a b c, of st0] by (simp add: st0_def)
qed

lemma missing_profile_result:
  assumes "\<not> path_exists w (path_join (ustr ''conf'') (name @ (ustr ''.yaml'')))"
  shows "process_single_config w st name =
     (Inr \<lparr>config_name = name, success = False,
           error = Some (config_not_found @ path_join (ustr ''conf'') (name @ (ustr ''.yaml''))),
           new_papers = 0, total_papers = 0, research_area = PStr [], table_name = [],
           ranked_papers = []\<rparr>,
      st\<lparr>trace := trace st @ [RunnerCall name]\<rparr>)"
  using assms by (simp add: process_single_config_def run_pipeline_def prepare_def Let_def)

text \<open>
  C1. The claim: for a profile identifier whose document does not exist, the Runner returns
  a failure result with zero counts, no representative paper, and \<^verbatim>\<open>research_area\<close> and
  \<^verbatim>\<open>table_name\<close> derived from the identifier by removing \<^verbatim>\<open>sync_\<close>. The code at the
  identifier \<^verbatim>\<open>sync_robotics\<close>, with no file \<^verbatim>\<open>conf/sync_robotics.yaml\<close>: the result is a
  failure with zero counts and no paper, returned without raising, but both labels are the
  empty string, where removing \<^verbatim>\<open>sync_\<close> from the identifier gives \<^verbatim>\<open>robotics\<close>. The
  handler of the outer \<^verbatim>\<open>try\<close> in the same function does derive the labels that way.
\<close>

theorem missing_profile_labels_empty:
  "fst (process_single_config missing_world st0 (ustr ''sync_robotics'')) =
     Inr \<lparr>config_name = (ustr ''sync_robotics''), success = False,
          error = Some (config_not_found @ (ustr ''conf/sync_robotics.yaml'')),
          new_papers = 0, total_papers = 0, research_area = PStr [], table_name = [],
          ranked_papers = []\<rparr>
   \<and> replace (ustr ''sync_robotics'') (ustr ''sync_'') [] = (ustr ''robotics'')"
proof -
  have p: "path_join (ustr ''conf'') ((ustr ''sync_robotics'') @ (ustr ''.yaml'')) = (ustr ''conf/sync_robotics.yaml'')"
    by (simp add: path_join_def startswith_def)
  have "\<not> path_exists missing_world (path_join (ustr ''conf'') ((ustr ''sync_robotics'') @ (ustr ''.yaml'')))"
    by (simp add: missing_world_def)
  from missing_profile_result [OF this, of st0] p
  have "fst (process_single_config missing_world st0 (ustr ''sync_robotics'')) =
     Inr \<lparr>config_name = (ustr ''sync_robotics''), success = False,
          error = Some (config_not_found @ (ustr ''conf/sync_robotics.yaml'')),
          new_papers = 0, total_papers = 0, research_area = PStr [], table_name = [],
          ranked_papers = []\<rparr>" by simp
  moreover have "replace (ustr ''sync_robotics'') (ustr ''sync_'') [] = (ustr ''robotics'')"
    by (simp add: replace.simps startswith_def)
  ultimately show ?thesis by blast
qed


section \<open>Properties of the Batch Aggregator and the Summary Notifier\<close>

lemma runner_calls_append: "runner_calls (xs @ ys) = runner_calls xs @ runner_calls ys"
proof (induction xs)
  case Nil
  then show ?case by simp
next
  case (Cons e xs)
  then show ?case by (cases e) simp_all
qed

lemma sync_step_trace:
  "trace (snd (sync_step w ranked final_cfg st)) =
     trace st @ [SetEnv (ustr ''BATCH_MODE'') (ustr ''1''), SyncCall, PopEnv (ustr ''BATCH_MODE'')]"
  by (simp add: sync_step_def Let_def)

lemma run_pipeline_trace:
  "trace (snd (run_pipeline w st name)) = trace st
   \<or> trace (snd (run_pipeline w st name)) =
       trace st @ [SetEnv (ustr ''BATCH_MODE'') (ustr ''1''), SyncCall, PopEnv (ustr ''BATCH_MODE'')]"
  by (simp add: run_pipeline_def Let_def sync_step_trace split: sum.splits stage.splits)

lemma process_single_config_state:
  "snd (process_single_config w st name) =
     snd (run_pipeline w (st\<lparr>trace := trace st @ [RunnerCall name]\<rparr>) name)"
  by (simp add: process_single_config_def Let_def split: sum.splits exn.splits)

lemma process_single_config_trace:
  "runner_calls (trace (snd (process_single_config w st name))) = runner_calls (trace st) @ [name]
   \<and> count_list (trace (snd (process_single_config w st name))) NotifierCall
       = count_list (trace st) NotifierCall"
  using run_pipeline_trace [of w "st\<lparr>trace := trace st @ [RunnerCall name]\<rparr>" name]
  by (auto simp: process_single_config_state runner_calls_append)

lemma process_single_config_no_Exc: "fst (process_single_config w st name) \<noteq> Inl (Exc e)"
  by (simp add: process_single_config_def Let_def split: sum.splits exn.splits)

lemma run_configs_no_Exc:
  "fst (run_configs w names rs t s st) \<noteq> Inl (Exc e)"
proof (induction names arbitrary: rs t s st)
  case Nil
  then show ?case by simp
next
  case (Cons name names)
  show ?case
    using process_single_config_no_Exc [of w st name e] Cons.IH
    by (auto simp: Let_def split: sum.splits)
qed

lemma run_configs_trace:
  "run_configs w names rs t s st = (Inr out, st') \<Longrightarrow>
     runner_calls (trace st') = runner_calls (trace st) @ names
     \<and> count_list (trace st') NotifierCall = count_list (trace st) NotifierCall"
proof (induction names arbitrary: rs t s st)
  case Nil
  then show ?case by simp
next
  case (Cons name names)
  let ?ran = "process_single_config w st name"
  from Cons.prems obtain r where r: "fst ?ran = Inr r"
    by (cases "fst ?ran") (auto simp: Let_def)
  from Cons.prems r obtain rs1 t1 s1 where
    "run_configs w names rs1 t1 s1 (snd ?ran) = (Inr out, st')"
    by (auto simp: Let_def split: if_splits)
  from Cons.IH [OF this] process_single_config_trace [of w st name]
  show ?case by simp
qed

lemma run_configs_total:
  "run_configs w names rs t s st = (Inr (rs', t', s'), st') \<Longrightarrow>
     \<exists>new. rs' = rs @ new \<and> length new = length names
       \<and> t' = t + sum_list (map new_papers (filter success new))"
proof (induction names arbitrary: rs t s st)
  case Nil
  then show ?case by simp
next
  case (Cons name names)
  let ?ran = "process_single_config w st name"
  from Cons.prems obtain r where r: "fst ?ran = Inr r"
    by (cases "fst ?ran") (auto simp: Let_def)
  show ?case
  proof (cases "success r")
    case True
    with Cons.prems r have
      "run_configs w names (rs @ [r]) (t + new_papers r) (s + 1) (snd ?ran) = (Inr (rs', t', s'), st')"
      by (simp add: Let_def)
    from Cons.IH [OF this] obtain new where
      "rs' = (rs @ [r]) @ new" "length new = length names"
      "t' = t + new_papers r + sum_list (map new_papers (filter success new))" by blast
    then have "rs' = rs @ (r # new) \<and> length (r # new) = length (name # names)
       \<and> t' = t + sum_list (map new_papers (filter success (r # new)))"
      using True by simp
    then show ?thesis by blast
  next
    case False
    with Cons.prems r have
      "run_configs w names (rs @ [r]) t s (snd ?ran) = (Inr (rs', t', s'), st')"
      by (simp add: Let_def)
    from Cons.IH [OF this] obtain new where
      "rs' = (rs @ [r]) @ new" "length new = length names"
      "t' = t + sum_list (map new_papers (filter success new))" by blast
    then have "rs' = rs @ (r # new) \<and> length (r # new) = length (name # names)
       \<and> t' = t + sum_list (map new_papers (filter success (r # new)))"
      using False by simp
    then show ?thesis by blast
  qed
qed

lemma notifier_trace:
  "trace (snd (send_batch_summary_notification w st results)) = trace st @ [NotifierCall]"
  by (simp add: send_batch_summary_notification_def Let_def)

text \<open>
  C7. Whenever \<^verbatim>\<open>process_all_configs\<close> returns, the Runner invocations it made are exactly
  the discovered profiles, each once and in discovery order, whatever the results were
  (a failed result does not end the loop); and when no profile is discovered it returns
  \<^verbatim>\<open>False\<close> and nothing at all has happened, so no Runner invocation.
\<close>

theorem batch_runs_every_profile:
  assumes "process_all_configs w st = (Inr b, st')"
  shows "runner_calls (trace st') = runner_calls (trace st) @ find_sync_configs w
         \<and> (find_sync_configs w = [] \<longrightarrow> \<not> b \<and> st' = st)"
proof (cases "find_sync_configs w = []")
  case True
  then show ?thesis using assms by (simp add: process_all_configs_def)
next
  case False
  let ?ran = "run_configs w (find_sync_configs w) [] 0 0 st"
  have ne: "fst ?ran \<noteq> Inl (Exc e)" for e by (rule run_configs_no_Exc)
  from assms False ne obtain out where out: "fst ?ran = Inr out"
    by (cases "fst ?ran") (auto simp: process_all_configs_def Let_def split: exn.splits)
  then have ran: "?ran = (Inr out, snd ?ran)" by (metis prod.collapse)
  have t: "runner_calls (trace (snd ?ran)) = runner_calls (trace st) @ find_sync_configs w"
    using run_configs_trace [OF ran] by simp
  obtain rs tot sc where o: "out = (rs, tot, sc)" by (cases out)
  have "runner_calls (trace st') = runner_calls (trace (snd ?ran))"
    using assms False out o
    by (auto simp: process_all_configs_def Let_def notifier_trace runner_calls_append
        split: if_splits sum.splits exn.splits)
  then show ?thesis using t False by simp
qed

text \<open>
  C8. For a batch that is not empty and whose loop over the profiles ended with the
  results \<open>all_results\<close> and the total \<open>total_new\<close>: the total is the sum of
  \<^verbatim>\<open>new_papers\<close> over the succeeded results; \<^verbatim>\<open>send_batch_summary_notification\<close> is
  entered once when the total is greater than zero and not at all otherwise; and with a
  total of zero \<^verbatim>\<open>process_all_configs\<close> returns \<^verbatim>\<open>True\<close>.
\<close>

theorem notifier_iff_new_papers:
  assumes "find_sync_configs w \<noteq> []"
    and "run_configs w (find_sync_configs w) [] 0 0 st = (Inr (all_results, total_new, n_ok), st1)"
  shows "total_new = sum_list (map new_papers (filter success all_results))
         \<and> count_list (trace (snd (process_all_configs w st))) NotifierCall
             = count_list (trace st) NotifierCall + (if 0 < total_new then 1 else 0)
         \<and> (total_new = 0 \<longrightarrow> process_all_configs w st = (Inr True, st1))"
proof -
  have a: "total_new = sum_list (map new_papers (filter success all_results))"
    using run_configs_total [OF assms(2)] by auto
  have c: "count_list (trace st1) NotifierCall = count_list (trace st) NotifierCall"
    using run_configs_trace [OF assms(2)] by simp
  have b: "count_list (trace (snd (process_all_configs w st))) NotifierCall
             = count_list (trace st) NotifierCall + (if 0 < total_new then 1 else 0)"
    using assms c
    by (auto simp: process_all_configs_def Let_def notifier_trace split: sum.splits exn.splits)
  have d: "total_new = 0 \<longrightarrow> process_all_configs w st = (Inr True, st1)"
    using assms by (simp add: process_all_configs_def Let_def)
  from a b d show ?thesis by blast
qed

theorem notifier_iff_new_papers_witness:
  "find_sync_configs (demo_world (Inr (PInt 2))) \<noteq> []
   \<and> fst (run_configs (demo_world (Inr (PInt 2))) (find_sync_configs (demo_world (Inr (PInt 2))))
           [] 0 0 st0)
       = Inr ([\<lparr>config_name = (ustr ''sync_robotics''), success = True, error = None, new_papers = 2,
                total_papers = 2, research_area = PStr (ustr ''robotics''),
                table_name = (ustr ''Robotics'') @ paper_table, ranked_papers = [10]\<rparr>], 2, 1)
   \<and> count_list (trace (snd (process_all_configs (demo_world (Inr (PInt 2))) st0))) NotifierCall = 1"
proof -
  let ?w = "demo_world (Inr (PInt 2))"
  let ?r = "\<lparr>config_name = (ustr ''sync_robotics''), success = True, error = None, new_papers = 2,
                total_papers = 2, research_area = PStr (ustr ''robotics''),
                table_name = (ustr ''Robotics'') @ paper_table, ranked_papers = [10::nat]\<rparr>"
  have f: "find_sync_configs ?w = [(ustr ''sync_robotics'')]"
    by (simp add: find_sync_configs_def demo_world_def path_join_def startswith_def basename_def
        replace.simps)
  have a: "prepare ?w (ustr ''sync_robotics'') = Inr (Ranked demo_final_cfg [10, 20])" by (rule demo_prepare)
  have b: "[10, 20] \<noteq> ([] :: nat list)" by simp
  have c: "FEISHU_AVAILABLE ?w" by (simp add: demo_world_def)
  have d: "fst (sync_papers_to_feishu ?w [10, 20] demo_final_cfg
            ((environ st0)((ustr ''BATCH_MODE'') \<mapsto> (ustr ''1'')))) = Inr (PInt 2)"
    by (simp add: demo_world_def)
  have r: "fst (process_single_config ?w st0 (ustr ''sync_robotics'')) = Inr ?r"
    using result_after_sync [OF a b c d demo_labels] by (simp add: synced_count_of_def)
  have rc: "run_configs ?w (find_sync_configs ?w) [] 0 0 st0 =
              (Inr ([?r], 2, 1), snd (process_single_config ?w st0 (ustr ''sync_robotics'')))"
    using f r by (simp add: Let_def)
  have ne: "find_sync_configs ?w \<noteq> []" by (simp add: f)
  from notifier_iff_new_papers [OF ne rc] ne rc show ?thesis by (simp add: st0_def)
qed

lemma find_app:
  "find P (xs @ ys) = (case find P xs of None \<Rightarrow> find P ys | Some x \<Rightarrow> Some x)"
  by (induction xs) auto

lemma key_eq_refl: "key_eq a a"
  by (simp add: key_eq_def split: option.splits)

lemma key_eq_sym: "key_eq a b \<Longrightarrow> key_eq b a"
  by (auto simp: key_eq_def split: option.splits)

lemma key_eq_trans: "key_eq a b \<Longrightarrow> key_eq b c \<Longrightarrow> key_eq a c"
  by (auto simp: key_eq_def split: option.splits)

lemma dict_get_set:
  "dict_get (dict_set key v d) topic = (if key_eq key topic then Some v else dict_get d topic)"
proof (induction d)
  case Nil
  then show ?case by simp
next
  case (Cons a d)
  obtain k old where a: "a = (k, old)" by (cases a)
  show ?case
  proof (cases "key_eq k key")
    case True
    have "key_eq k topic = key_eq key topic"
      using True key_eq_trans key_eq_sym by blast
    then show ?thesis using True a by simp
  next
    case False
    have "\<not> (key_eq k topic \<and> key_eq key topic)"
      using False key_eq_trans key_eq_sym by blast
    then show ?thesis using False a Cons.IH by auto
  qed
qed

lemma summary_loop_stats:
  "summary_loop w results (us, ps, ls) = Inr (us', ps', ls') \<Longrightarrow>
     dict_get us' topic =
       (case find (\<lambda>r. success r \<and> 0 < new_papers r \<and> key_eq (field_name r) topic) (rev results) of
          Some r \<Rightarrow> Some (stats_entry r)
        | None \<Rightarrow> dict_get us topic)"
proof (induction results arbitrary: us ps ls)
  case Nil
  then show ?case by simp
next
  case (Cons result rest)
  show ?case
  proof (cases "success result \<and> 0 < new_papers result")
    case True
    with Cons.prems obtain ps1 ls1 where
      "summary_loop w rest (dict_set (field_name result) (stats_entry result) us, ps1, ls1)
         = Inr (us', ps', ls')"
      by (auto dest!: exn_bind_Inr)
    from Cons.IH [OF this] True show ?thesis
      by (auto simp: find_app dict_get_set split: option.splits)
  next
    case False
    with Cons.prems have "summary_loop w rest (us, ps, ls) = Inr (us', ps', ls')" by auto
    from Cons.IH [OF this] False show ?thesis
      by (auto simp: find_app split: option.splits)
  qed
qed

lemma replace_suffix:
  "tok \<noteq> [] \<Longrightarrow> list_all (\<lambda>i. \<not> startswith (drop i (t @ tok)) tok) [0..<length t]
     \<Longrightarrow> replace (t @ tok) tok new = t @ new"
proof (induction t)
  case Nil
  have "startswith tok tok" by (simp add: startswith_def)
  moreover have "replace [] tok new = []" using Nil.prems(1) by (simp add: replace.simps)
  ultimately show ?case using Nil.prems(1) by (simp add: replace.simps [of tok])
next
  case (Cons c t)
  have u: "[0..<length (c # t)] = 0 # map Suc [0..<length t]"
    by (simp add: upt_conv_Cons map_Suc_upt del: upt_Suc)
  from Cons.prems(2)
  have "list_all (\<lambda>i. \<not> startswith (drop i ((c # t) @ tok)) tok) (0 # map Suc [0..<length t])"
    unfolding u .
  then have nr: "\<not> startswith (drop 0 ((c # t) @ tok)) tok
      \<and> list_all (\<lambda>i. \<not> startswith (drop i ((c # t) @ tok)) tok) (map Suc [0..<length t])"
    by (simp only: list.pred_inject simp_thms)
  from nr have n0: "\<not> startswith (drop 0 ((c # t) @ tok)) tok" by (rule conjunct1)
  from nr have r0: "list_all (\<lambda>i. \<not> startswith (drop i ((c # t) @ tok)) tok)
      (map Suc [0..<length t])" by (rule conjunct2)
  have n: "\<not> startswith (c # t @ tok) tok" using n0 by (simp only: drop_0 append_Cons simp_thms)
  have "list_all ((\<lambda>i. \<not> startswith (drop i ((c # t) @ tok)) tok) \<circ> Suc) [0..<length t]"
    using r0 by (simp only: list.pred_map)
  then have r: "list_all (\<lambda>i. \<not> startswith (drop i (t @ tok)) tok) [0..<length t]"
    by (simp only: comp_def append_Cons drop_Suc_Cons)
  have "replace (t @ tok) tok new = t @ new" using Cons.IH [OF Cons.prems(1) r] .
  then show ?case using n Cons.prems(1) by (simp add: replace.simps [of "c # t @ tok"])
qed

text \<open>
  C9. When the loop of \<^verbatim>\<open>send_batch_summary_notification\<close> over the results ends, the entry
  of \<^verbatim>\<open>update_stats\<close> under a topic is the entry of the last result in the list that
  succeeded, has \<^verbatim>\<open>new_papers > 0\<close> and has that topic as its key; a topic no such result
  has is not a key. So only such results contribute, a later profile with the same topic
  replaces the entry of an earlier one, and nothing is added up: the entry is
  \<open>{new_count, total_count, table_name}\<close> of that one result. The topic of a result is its
  table name with the suffix token removed and the rest trimmed, or its research area when
  nothing is left; and a table name \<open>t\<close> followed by the token, with the token nowhere
  else in it, loses exactly that suffix.
\<close>

theorem update_stats_last_write_wins:
  assumes "summary_loop w results ([], [], []) = Inr (update_stats, papers_by_field, table_links)"
  shows "dict_get update_stats topic =
           map_option stats_entry
             (find (\<lambda>r. success r \<and> 0 < new_papers r \<and> key_eq (field_name r) topic) (rev results))
         \<and> stats_entry r = \<lparr>new_count = new_papers r, total_count = total_papers r,
                             stats_table_name = table_name r\<rparr>
         \<and> field_name r =
             (if strip (replace (table_name r) paper_table []) = [] then research_area r
              else PStr (strip (replace (table_name r) paper_table [])))
         \<and> (list_all (\<lambda>i. \<not> startswith (drop i (t @ paper_table)) paper_table) [0..<length t]
               \<longrightarrow> replace (t @ paper_table) paper_table [] = t)"
proof -
  have a: "dict_get update_stats topic =
           map_option stats_entry
             (find (\<lambda>r. success r \<and> 0 < new_papers r \<and> key_eq (field_name r) topic) (rev results))"
    using summary_loop_stats [OF assms, of topic] by (simp split: option.splits)
  have b: "stats_entry r = \<lparr>new_count = new_papers r, total_count = total_papers r,
                             stats_table_name = table_name r\<rparr>"
    by (simp add: stats_entry_def)
  have c: "field_name r =
             (if strip (replace (table_name r) paper_table []) = [] then research_area r
              else PStr (strip (replace (table_name r) paper_table [])))"
    by (simp add: field_name_def Let_def)
  have "paper_table \<noteq> []" by (simp add: paper_table_def)
  then have d: "list_all (\<lambda>i. \<not> startswith (drop i (t @ paper_table)) paper_table) [0..<length t]
               \<longrightarrow> replace (t @ paper_table) paper_table [] = t"
    using replace_suffix [of paper_table t "[]"] by simp
  from a b c d show ?thesis by blast
qed

theorem update_stats_last_write_wins_witness:
  "summary_loop missing_world
       [robotics_first, failed_result, area_one, robotics_second, idle_result, area_true]
       ([], [], [])
     = Inr ([(PStr (ustr ''Robotics''), stats_entry robotics_second), (PInt 1, stats_entry area_true)],
            [(PStr (ustr ''Robotics''), representative_of robotics_second),
             (PInt 1, representative_of area_true)], [])
   \<and> dict_get [(PStr (ustr ''Robotics''), stats_entry robotics_second), (PInt 1, stats_entry area_true)]
         (PStr (ustr ''Robotics''))
       = Some \<lparr>new_count = 2, total_count = 7,
               stats_table_name = ustr ''Robotics '' @ paper_table\<rparr>
   \<and> dict_get [(PStr (ustr ''Robotics''), stats_entry robotics_second), (PInt 1, stats_entry area_true)]
         (PBool True)
       = Some \<lparr>new_count = 4, total_count = 4, stats_table_name = paper_table\<rparr>
   \<and> dict_get [(PStr (ustr ''Robotics''), stats_entry robotics_second), (PInt 1, stats_entry area_true)]
         (PStr (ustr ''Failed'')) = None
   \<and> replace (ustr ''Robotics'' @ paper_table) paper_table [] = ustr ''Robotics''"
proof -
  have f1: "field_name robotics_first = PStr (ustr ''Robotics'')"
    by (simp add: field_name_def robotics_first_def paper_table_def replace.simps startswith_def
        strip_def is_space_def)
  have f2: "field_name robotics_second = PStr (ustr ''Robotics'')"
    by (simp add: field_name_def robotics_second_def paper_table_def replace.simps startswith_def
        strip_def is_space_def)
  have f3: "field_name area_one = PInt 1"
    by (simp add: field_name_def area_one_def paper_table_def replace.simps startswith_def
        strip_def is_space_def)
  have f4: "field_name area_true = PBool True"
    by (simp add: field_name_def area_true_def paper_table_def replace.simps startswith_def
        strip_def is_space_def)
  have q: "success robotics_first \<and> new_papers robotics_first > 0"
    "success robotics_second \<and> new_papers robotics_second > 0"
    "success area_one \<and> new_papers area_one > 0"
    "success area_true \<and> new_papers area_true > 0"
    "\<not> success failed_result" "\<not> new_papers idle_result > 0"
    by (simp_all add: robotics_first_def robotics_second_def area_one_def area_true_def
        failed_result_def idle_result_def)
  have g: "generate_table_link missing_world n = Inr PNone" for n by (simp add: missing_world_def)
  have a: "summary_loop missing_world
       [robotics_first, failed_result, area_one, robotics_second, idle_result, area_true]
       ([], [], [])
     = Inr ([(PStr (ustr ''Robotics''), stats_entry robotics_second), (PInt 1, stats_entry area_true)],
            [(PStr (ustr ''Robotics''), representative_of robotics_second),
             (PInt 1, representative_of area_true)], [])"
    using q f1 f2 f3 f4 g by (simp add: key_eq_def)
  have e: "stats_entry robotics_second
       = \<lparr>new_count = 2, total_count = 7, stats_table_name = ustr ''Robotics '' @ paper_table\<rparr>"
    "stats_entry area_true = \<lparr>new_count = 4, total_count = 4, stats_table_name = paper_table\<rparr>"
    by (simp_all add: stats_entry_def robotics_second_def area_true_def)
  have l: "list_all (\<lambda>i. \<not> startswith (drop i (ustr ''Robotics'' @ paper_table)) paper_table)
              [0..<length (ustr ''Robotics'')]"
    by (simp add: startswith_def paper_table_def upt_conv_Cons del: upt_Suc)
  from update_stats_last_write_wins [OF a, of "PStr (ustr ''Robotics'')" area_true "ustr ''Robotics''"]
    update_stats_last_write_wins [OF a, of "PBool True"]
    update_stats_last_write_wins [OF a, of "PStr (ustr ''Failed'')"]
    a e l
  show ?thesis by (simp add: key_eq_def)
qed

theorem batch_runs_every_profile_witness:
  "process_all_configs missing_world st0 =
     (Inr True, st0\<lparr>trace := [RunnerCall (ustr ''sync_robotics''), RunnerCall (ustr ''sync_vision'')]\<rparr>)
   \<and> find_sync_configs missing_world = [(ustr ''sync_robotics''), (ustr ''sync_vision'')]
   \<and> runner_calls [RunnerCall (ustr ''sync_robotics''), RunnerCall (ustr ''sync_vision'')]
       = [(ustr ''sync_robotics''), (ustr ''sync_vision'')]"
proof -
  have f: "find_sync_configs missing_world = [(ustr ''sync_robotics''), (ustr ''sync_vision'')]"
    by (simp add: find_sync_configs_def missing_world_def path_join_def startswith_def basename_def
        replace.simps)
  have n: "\<not> path_exists missing_world p" for p by (simp add: missing_world_def)
  have a: "process_all_configs missing_world st0 =
     (Inr True, st0\<lparr>trace := [RunnerCall (ustr ''sync_robotics''), RunnerCall (ustr ''sync_vision'')]\<rparr>)"
    by (simp add: process_all_configs_def f Let_def missing_profile_result [OF n] st0_def)
  from batch_runs_every_profile [OF a] a f show ?thesis by (simp add: st0_def)
qed


end
